theory Spec2Isabelle
  imports Complex_Main "HOL-Library.Log_Nat" "HOL-Library.Word"
begin

section \<open>JavaScript numbers\<close>

text \<open>
  \<open>detectColor\<close> computes with JavaScript numbers, that is IEEE 754 binary64 values under
  round-to-nearest, ties-to-even. A finite binary64 value is a rational number, and every
  arithmetic operation returns the exact result, rounded. The model keeps the rational and
  applies the rounding function \<open>fl\<close> to every decimal literal and after every operation
  that the source performs on numbers that need not be integers.

  \<open>fl\<close> rounds to 53 significant bits, and to a multiple of \<open>2 powi (-1074)\<close> in the
  subnormal range. It has no overflow to infinity, and needs none: for 8-bit channels and a
  finite threshold, every value that \<open>detectColor\<close> computes is bounded by 255 or by the
  threshold. The integer-valued quantities of the source (the channels, their maximum,
  minimum and difference, the four counters) stay far below \<open>2 ^ 53\<close>, where binary64
  arithmetic on integers is exact; they are integers in the model. The threshold is the
  value of a range input, a finite number.
\<close>

definition rne :: "rat \<Rightarrow> int" where
  \<comment> \<open>round to the nearest integer, a tie to the even one\<close>
  "rne m = (let f = \<lfloor>m\<rfloor>; d = m - of_int f
            in if d < 1/2 then f else if 1/2 < d then f + 1
               else if even f then f else f + 1)"

definition expo :: "rat \<Rightarrow> int" where
  \<comment> \<open>for \<open>0 < x\<close>: the binary exponent \<open>e\<close> with \<open>2 powi e \<le> x < 2 powi (e + 1)\<close>\<close>
  "expo x = (let (p, q) = quotient_of x; d = bitlen p - bitlen q
             in if 2 powi d \<le> x then d else d - 1)"

definition rto :: "int \<Rightarrow> rat \<Rightarrow> rat" where
  \<comment> \<open>round to the nearest multiple of \<open>2 powi k\<close>\<close>
  "rto k x = of_int (rne (x / 2 powi k)) * 2 powi k"

definition fl :: "rat \<Rightarrow> rat" where
  "fl x = (if x = 0 then 0
           else sgn x * rto (max (expo \<bar>x\<bar> - 52) (- 1074)) \<bar>x\<bar>)"

section \<open>Colour detection\<close>

text \<open>
  \<open>ImageData.data\<close> is a byte array of four bytes (R, G, B, A) per pixel, so its length is
  four times the number of pixels. The model groups the bytes by pixel: the byte at offset
  \<open>i + k\<close>, for \<open>i\<close> a multiple of 4 and \<open>k < 4\<close>, is channel \<open>k\<close> of pixel \<open>i div 4\<close>.
\<close>

datatype pixel = Pixel (chan_r: "8 word") (chan_g: "8 word") (chan_b: "8 word") (chan_a: "8 word")

type_synonym imageData = "pixel list"

record counts =
  colorPixels :: nat
  sampledPixels :: nat
  brightPixels :: nat
  darkPixels :: nat

definition luminance :: "int \<Rightarrow> int \<Rightarrow> int \<Rightarrow> rat" where
  \<comment> \<open>\<open>0.299 * r + 0.587 * g + 0.114 * b\<close>\<close>
  "luminance r g b =
     fl (fl (fl (fl (299/1000) * of_int r) + fl (fl (587/1000) * of_int g))
         + fl (fl (114/1000) * of_int b))"

definition saturation :: "int \<Rightarrow> int \<Rightarrow> rat" where
  \<comment> \<open>\<open>max === 0 ? 0 : (max - min) / max\<close>\<close>
  "saturation mx mn = (if mx = 0 then 0 else fl (of_int (mx - mn) / of_int mx))"

definition isColorPixel :: "rat \<Rightarrow> rat \<Rightarrow> rat \<Rightarrow> int \<Rightarrow> bool" where
  "isColorPixel threshold lum sat chroma =
     (if lum < 55 then
        fl (sat * 100) > fl (threshold * fl (7/10)) \<or> chroma > 8
      else if lum > 200 then
        fl (sat * 100) > fl (threshold * fl (8/10)) \<or> chroma > 10
      else
        fl (sat * 100) > threshold \<or> (chroma > 12 \<and> sat > fl (1/10)))"

definition sample :: "rat \<Rightarrow> pixel \<Rightarrow> counts \<Rightarrow> counts" where
  \<comment> \<open>the body of the sampling loop, for one pixel\<close>
  "sample threshold px c =
     (let r = uint (chan_r px); g = uint (chan_g px); b = uint (chan_b px);
          a = uint (chan_a px)
      in if a < 128 then c
         else
           let c1 = c\<lparr>sampledPixels := sampledPixels c + 1\<rparr>;
               lum = luminance r g b;
               c2 = (if lum > 200 then c1\<lparr>brightPixels := brightPixels c1 + 1\<rparr>
                     else if lum < 55 then c1\<lparr>darkPixels := darkPixels c1 + 1\<rparr>
                     else c1);
               mx = max r (max g b);
               mn = min r (min g b);
               sat = saturation mx mn;
               chroma = mx - mn
           in if isColorPixel threshold lum sat chroma
              then c2\<lparr>colorPixels := colorPixels c2 + 1\<rparr>
              else c2)"

function detectColor_loop :: "imageData \<Rightarrow> rat \<Rightarrow> nat \<Rightarrow> counts \<Rightarrow> counts" where
  \<comment> \<open>\<open>for (let i = 0; i < data.length; i += 40)\<close>, entered at byte offset \<open>i\<close>\<close>
  "detectColor_loop data threshold i c =
     (if i < 4 * length data
      then detectColor_loop data threshold (i + 40) (sample threshold (data ! (i div 4)) c)
      else c)"
  by pat_completeness auto
termination
  by (relation "measure (\<lambda>(data, threshold, i, c). 4 * length data - i)") auto

declare detectColor_loop.simps [simp del]

definition detectColor :: "imageData \<Rightarrow> rat \<Rightarrow> bool" where
  "detectColor imageData threshold =
     (let c = detectColor_loop imageData threshold 0
                \<lparr>colorPixels = 0, sampledPixels = 0, brightPixels = 0, darkPixels = 0\<rparr>
      in if sampledPixels c = 0 then False
         else
           let colorPercentage =
                 fl (fl (of_nat (colorPixels c) / of_nat (sampledPixels c)) * 100);
               brightRatio = fl (of_nat (brightPixels c) / of_nat (sampledPixels c));
               darkRatio = fl (of_nat (darkPixels c) / of_nat (sampledPixels c));
               finalThreshold =
                 (if brightRatio > fl (3/10) \<or> darkRatio > fl (3/10)
                  then fl (5/1000) else fl (1/100))
           in colorPercentage > finalThreshold)"

section \<open>The splitting pipeline\<close>

text \<open>
  \<open>processPDFs\<close> reads the component variables \<open>files\<close>, \<open>colorThreshold\<close> and
  \<open>insertBlankPages\<close> (arguments of the model) and writes \<open>processing\<close>, \<open>progress\<close> and
  \<open>results\<close>. Its effects outside the component are the lines written with
  \<open>console.error\<close> and the files handed to the browser for download. Both are kept in the
  state, as lists that only grow, together with the locals \<open>colorPDF\<close>, \<open>bwPDF\<close>,
  \<open>colorPdfBytes\<close> and \<open>bwPdfBytes\<close> of the current run.

  The external operations are given by their outcome. For an input file: whether
  \<open>file.arrayBuffer()\<close>, \<open>PDFDocument.load\<close> and \<open>pdfjsLib.getDocument\<close> succeed, and its
  pages. For a page: the image that rendering produces (\<open>None\<close> when anything in the first
  \<open>try\<close> block throws) and whether \<open>copyPages\<close> with \<open>addPage\<close> succeeds. For the end of the
  run: whether each \<open>save\<close> and each download succeeds.

  Every operation that the model lets fail is inside one of the inner \<open>try\<close> blocks, whose
  handler is a branch of the model. The handler of the outer \<open>try\<close> block, which sets
  \<open>error_unexpected\<close>, runs only when some other operation throws; the model has no such
  failure and no such branch. The \<open>finally\<close> block is the last update of \<open>processPDFs\<close>.
\<close>

datatype page = SourcePage nat nat | BlankPage
  \<comment> \<open>a page of an output document: the copy of page \<open>pageIndex\<close> of input file
     \<open>fileIndex\<close>, or the empty page that \<open>addPage()\<close> creates\<close>

type_synonym pdf = "page list"

text \<open>
  The value of \<open>progress\<close> is a message of the catalogue \<open>m\<close>, given by its name and its
  arguments; \<open>no_message\<close> is the empty string that the component starts with. A line of
  the console is given by the text of its \<open>console.error\<close> call, with the page number and
  the file name that the call interpolates.
\<close>

datatype message =
    no_message
  | progress_starting
  | progress_processing_file string nat nat
  | error_reading_file string
  | error_invalid_pdf string
  | error_processing_file string
  | progress_processing_page string nat nat
  | error_copying_page nat string
  | progress_generating
  | error_generating_pdfs
  | error_downloading_color
  | error_downloading_bw
  | error_no_pages
  | progress_complete
  | error_unexpected

datatype log_entry =
    Error_reading_file string
  | Error_loading_PDF string
  | Error_loading_PDF_with_pdfjs string
  | Error_processing_page nat string
  | Error_copying_page nat string
  | Error_generating_PDFs
  | Error_downloading_color_PDF
  | Error_downloading_BW_PDF

record page_input =
  raster :: "imageData option"  \<comment> \<open>the image data of the rendered page, if rendering succeeds\<close>
  copy_ok :: bool  \<comment> \<open>\<open>copyPages\<close> and \<open>addPage\<close> succeed on the page\<close>

record file_input =
  file_name :: string
  read_ok :: bool  \<comment> \<open>\<open>file.arrayBuffer()\<close> succeeds\<close>
  load_ok :: bool  \<comment> \<open>\<open>PDFDocument.load\<close> succeeds\<close>
  pdfjs_ok :: bool  \<comment> \<open>\<open>pdfjsLib.getDocument\<close> succeeds\<close>
  file_pages :: "page_input list"  \<comment> \<open>the pages; \<open>pageCount\<close> is their number\<close>

record env =
  save_color_ok :: bool
  save_bw_ok :: bool
  download_color_ok :: bool
  download_bw_ok :: bool

record page_counts =
  colorPages :: nat
  bwPages :: nat

record state =
  processing :: bool
  progress :: message
  results :: page_counts
  console :: "log_entry list"  \<comment> \<open>the lines written so far\<close>
  downloads :: "(string \<times> pdf) list"  \<comment> \<open>the files downloaded so far: name and content\<close>
  colorPDF :: pdf
  bwPDF :: pdf
  colorPdfBytes :: "pdf option"  \<comment> \<open>\<open>None\<close> is \<open>null\<close>; the bytes of a document are its pages\<close>
  bwPdfBytes :: "pdf option"

definition detect_page :: "rat \<Rightarrow> file_input \<Rightarrow> nat \<Rightarrow> state \<Rightarrow> bool \<times> state" where
  \<comment> \<open>the first \<open>try\<close> block of the page loop: render the page and classify the image\<close>
  "detect_page colorThreshold file pageIndex s =
     (case raster (file_pages file ! pageIndex) of
        Some imageData \<Rightarrow> (detectColor imageData colorThreshold, s)
      | None \<Rightarrow>
          (False,
           s\<lparr>console := console s @ [Error_processing_page (pageIndex + 1) (file_name file)]\<rparr>))"

definition copy_page :: "file_input \<Rightarrow> nat \<Rightarrow> nat \<Rightarrow> bool \<Rightarrow> state \<Rightarrow> state" where
  \<comment> \<open>the second \<open>try\<close> block of the page loop: copy the page and count it\<close>
  "copy_page file fileIndex pageIndex isColorPage s =
     (if copy_ok (file_pages file ! pageIndex) then
        (if isColorPage
         then s\<lparr>colorPDF := colorPDF s @ [SourcePage fileIndex pageIndex],
                results := (results s)\<lparr>colorPages := colorPages (results s) + 1\<rparr>\<rparr>
         else s\<lparr>bwPDF := bwPDF s @ [SourcePage fileIndex pageIndex],
                results := (results s)\<lparr>bwPages := bwPages (results s) + 1\<rparr>\<rparr>)
      else
        s\<lparr>console := console s @ [Error_copying_page (pageIndex + 1) (file_name file)],
          progress := error_copying_page (pageIndex + 1) (file_name file)\<rparr>)"

definition process_page :: "rat \<Rightarrow> file_input \<Rightarrow> nat \<Rightarrow> nat \<Rightarrow> state \<Rightarrow> state" where
  "process_page colorThreshold file fileIndex pageIndex s =
     (let s1 = s\<lparr>progress := progress_processing_page (file_name file) (pageIndex + 1)
                                (length (file_pages file))\<rparr>;
          (isColorPage, s2) = detect_page colorThreshold file pageIndex s1
      in copy_page file fileIndex pageIndex isColorPage s2)"

function page_loop :: "rat \<Rightarrow> file_input \<Rightarrow> nat \<Rightarrow> nat \<Rightarrow> state \<Rightarrow> state" where
  \<comment> \<open>\<open>for (let pageIndex = 0; pageIndex < pageCount; pageIndex++)\<close>, entered at \<open>pageIndex\<close>\<close>
  "page_loop colorThreshold file fileIndex pageIndex s =
     (if pageIndex < length (file_pages file)
      then page_loop colorThreshold file fileIndex (pageIndex + 1)
             (process_page colorThreshold file fileIndex pageIndex s)
      else s)"
  by pat_completeness auto
termination
  by (relation "measure (\<lambda>(colorThreshold, file, fileIndex, pageIndex, s).
        length (file_pages file) - pageIndex)") auto

declare page_loop.simps [simp del]

definition process_file :: "rat \<Rightarrow> bool \<Rightarrow> file_input list \<Rightarrow> nat \<Rightarrow> state \<Rightarrow> state" where
  \<comment> \<open>the body of the file loop; each \<open>continue\<close> ends it\<close>
  "process_file colorThreshold insertBlankPages files fileIndex s =
     (let file = files ! fileIndex;
          s1 = s\<lparr>progress := progress_processing_file (file_name file) (fileIndex + 1)
                                (length files)\<rparr>
      in if \<not> read_ok file then
           s1\<lparr>console := console s1 @ [Error_reading_file (file_name file)],
              progress := error_reading_file (file_name file)\<rparr>
         else if \<not> load_ok file then
           s1\<lparr>console := console s1 @ [Error_loading_PDF (file_name file)],
              progress := error_invalid_pdf (file_name file)\<rparr>
         else if \<not> pdfjs_ok file then
           s1\<lparr>console := console s1 @ [Error_loading_PDF_with_pdfjs (file_name file)],
              progress := error_processing_file (file_name file)\<rparr>
         else
           let s2 = (if insertBlankPages \<and> fileIndex > 0
                     then s1\<lparr>colorPDF := colorPDF s1 @ [BlankPage],
                             bwPDF := bwPDF s1 @ [BlankPage]\<rparr>
                     else s1)
           in page_loop colorThreshold file fileIndex 0 s2)"

function file_loop :: "rat \<Rightarrow> bool \<Rightarrow> file_input list \<Rightarrow> nat \<Rightarrow> state \<Rightarrow> state" where
  \<comment> \<open>\<open>for (let fileIndex = 0; fileIndex < files.length; fileIndex++)\<close>, entered at
     \<open>fileIndex\<close>\<close>
  "file_loop colorThreshold insertBlankPages files fileIndex s =
     (if fileIndex < length files
      then file_loop colorThreshold insertBlankPages files (fileIndex + 1)
             (process_file colorThreshold insertBlankPages files fileIndex s)
      else s)"
  by pat_completeness auto
termination
  by (relation "measure (\<lambda>(colorThreshold, insertBlankPages, files, fileIndex, s).
        length files - fileIndex)") auto

declare file_loop.simps [simp del]

definition generate_failed :: "state \<Rightarrow> state" where
  \<comment> \<open>the handler of the \<open>try\<close> block around the two calls of \<open>save\<close>; it returns\<close>
  "generate_failed s =
     s\<lparr>console := console s @ [Error_generating_PDFs], progress := error_generating_pdfs\<rparr>"

definition download_color :: "env \<Rightarrow> state \<Rightarrow> state" where
  "download_color env s =
     (case colorPdfBytes s of
        None \<Rightarrow> s
      | Some bytes \<Rightarrow>
          if colorPages (results s) > 0 then
            (if download_color_ok env
             then s\<lparr>downloads := downloads s @ [(''color_pages.pdf'', bytes)]\<rparr>
             else s\<lparr>console := console s @ [Error_downloading_color_PDF],
                    progress := error_downloading_color\<rparr>)
          else s)"

definition download_bw :: "env \<Rightarrow> state \<Rightarrow> state" where
  "download_bw env s =
     (case bwPdfBytes s of
        None \<Rightarrow> s
      | Some bytes \<Rightarrow>
          if bwPages (results s) > 0 then
            (if download_bw_ok env
             then s\<lparr>downloads := downloads s @ [(''bw_pages.pdf'', bytes)]\<rparr>
             else s\<lparr>console := console s @ [Error_downloading_BW_PDF],
                    progress := error_downloading_bw\<rparr>)
          else s)"

definition generate_and_download :: "env \<Rightarrow> state \<Rightarrow> state" where
  \<comment> \<open>the part of \<open>processPDFs\<close> after the file loop\<close>
  "generate_and_download env s =
     (let s1 = s\<lparr>progress := progress_generating, colorPdfBytes := None, bwPdfBytes := None\<rparr>
      in if colorPages (results s1) > 0 \<and> \<not> save_color_ok env then generate_failed s1
         else
           let s2 = (if colorPages (results s1) > 0
                     then s1\<lparr>colorPdfBytes := Some (colorPDF s1)\<rparr> else s1)
           in if bwPages (results s2) > 0 \<and> \<not> save_bw_ok env then generate_failed s2
              else
                let s3 = (if bwPages (results s2) > 0
                          then s2\<lparr>bwPdfBytes := Some (bwPDF s2)\<rparr> else s2);
                    s4 = download_color env s3;
                    s5 = download_bw env s4
                in if colorPages (results s5) = 0 \<and> bwPages (results s5) = 0
                   then s5\<lparr>progress := error_no_pages\<rparr>
                   else s5\<lparr>progress := progress_complete\<rparr>)"

definition processPDFs ::
  "env \<Rightarrow> file_input list option \<Rightarrow> rat \<Rightarrow> bool \<Rightarrow> state \<Rightarrow> state" where
  "processPDFs env files colorThreshold insertBlankPages s =
     (case files of
        None \<Rightarrow> s
      | Some fs \<Rightarrow>
          if length fs = 0 then s
          else
            let s1 = s\<lparr>processing := True, progress := progress_starting,
                       results := \<lparr>colorPages = 0, bwPages = 0\<rparr>,
                       colorPDF := [], bwPDF := []\<rparr>;
                s2 = file_loop colorThreshold insertBlankPages fs 0 s1;
                s3 = generate_and_download env s2
            in s3\<lparr>processing := False\<rparr>)"

section \<open>Auxiliary notions\<close>

text \<open>
  The notions of this section are not functions of the source. They name quantities of the
  source for the proofs: a relation between the counters of two runs of the sampling loop,
  the locals of the loop body as functions of the pixel, the value of \<open>isColorPage\<close> after
  the first \<open>try\<close> block, and closed forms of what the file loop and the page loop write. Each
  closed form is proved equal to what the model of the source computes.
\<close>

definition same_but_color :: "counts \<Rightarrow> counts \<Rightarrow> bool" where
  \<comment> \<open>the counters after sampling the same pixels at thresholds \<open>t1 \<le> t2\<close>\<close>
  "same_but_color c1 c2 \<longleftrightarrow>
     sampledPixels c1 = sampledPixels c2 \<and> brightPixels c1 = brightPixels c2 \<and>
     darkPixels c1 = darkPixels c2 \<and> colorPixels c2 \<le> colorPixels c1"

definition pixel_lum :: "pixel \<Rightarrow> rat" where
  \<comment> \<open>the local \<open>luminance\<close>\<close>
  "pixel_lum px = luminance (uint (chan_r px)) (uint (chan_g px)) (uint (chan_b px))"

definition pixel_max :: "pixel \<Rightarrow> int" where
  \<comment> \<open>the local \<open>max\<close>\<close>
  "pixel_max px = max (uint (chan_r px)) (max (uint (chan_g px)) (uint (chan_b px)))"

definition pixel_min :: "pixel \<Rightarrow> int" where
  \<comment> \<open>the local \<open>min\<close>\<close>
  "pixel_min px = min (uint (chan_r px)) (min (uint (chan_g px)) (uint (chan_b px)))"

definition pixel_colored :: "rat \<Rightarrow> pixel \<Rightarrow> bool" where
  \<comment> \<open>the local \<open>isColorPixel\<close> of a pixel that is not skipped\<close>
  "pixel_colored t px \<longleftrightarrow>
     isColorPixel t (pixel_lum px) (saturation (pixel_max px) (pixel_min px))
       (pixel_max px - pixel_min px)"

definition page_is_color :: "rat \<Rightarrow> page_input \<Rightarrow> bool" where
  \<comment> \<open>the value of \<open>isColorPage\<close> when the page is copied: the result of \<open>detectColor\<close>,
     or \<open>false\<close> when rendering failed\<close>
  "page_is_color colorThreshold pg =
     (case raster pg of Some imageData \<Rightarrow> detectColor imageData colorThreshold | None \<Rightarrow> False)"

definition opened :: "file_input \<Rightarrow> bool" where
  \<comment> \<open>the file passes the three \<open>try\<close> blocks at the head of the file loop\<close>
  "opened file \<longleftrightarrow> read_ok file \<and> load_ok file \<and> pdfjs_ok file"

definition page_log :: "file_input \<Rightarrow> nat \<Rightarrow> log_entry list" where
  \<comment> \<open>the console lines written while page \<open>p\<close> of an opened file is processed\<close>
  "page_log file p =
     (if raster (file_pages file ! p) = None
      then [Error_processing_page (p + 1) (file_name file)] else []) @
     (if copy_ok (file_pages file ! p)
      then [] else [Error_copying_page (p + 1) (file_name file)])"

definition file_log :: "file_input \<Rightarrow> log_entry list" where
  \<comment> \<open>the console lines written while a file is processed\<close>
  "file_log file =
     (if \<not> read_ok file then [Error_reading_file (file_name file)]
      else if \<not> load_ok file then [Error_loading_PDF (file_name file)]
      else if \<not> pdfjs_ok file then [Error_loading_PDF_with_pdfjs (file_name file)]
      else concat (map (page_log file) [0..<length (file_pages file)]))"

definition copied :: "rat \<Rightarrow> bool \<Rightarrow> file_input \<Rightarrow> nat" where
  \<comment> \<open>the number of pages of a file that are copied into the colour document (\<open>cls\<close> is
     \<open>True\<close>) or into the B&W document (\<open>cls\<close> is \<open>False\<close>)\<close>
  "copied colorThreshold cls file =
     (if opened file
      then length (filter (\<lambda>pg. copy_ok pg \<and> page_is_color colorThreshold pg = cls) (file_pages file))
      else 0)"

definition output_log :: "env \<Rightarrow> page_counts \<Rightarrow> log_entry list" where
  \<comment> \<open>the console lines written after the file loop, given the counters\<close>
  "output_log env r =
     (if colorPages r > 0 \<and> \<not> save_color_ok env then [Error_generating_PDFs]
      else if bwPages r > 0 \<and> \<not> save_bw_ok env then [Error_generating_PDFs]
      else (if colorPages r > 0 \<and> \<not> download_color_ok env
            then [Error_downloading_color_PDF] else []) @
           (if bwPages r > 0 \<and> \<not> download_bw_ok env
            then [Error_downloading_BW_PDF] else []))"

definition counted :: "state \<Rightarrow> bool" where
  \<comment> \<open>each counter is the number of source pages in its document\<close>
  "counted s \<longleftrightarrow>
     colorPages (results s) = length (filter (\<lambda>x. x \<noteq> BlankPage) (colorPDF s)) \<and>
     bwPages (results s) = length (filter (\<lambda>x. x \<noteq> BlankPage) (bwPDF s))"

definition output_files :: "env \<Rightarrow> state \<Rightarrow> (string \<times> pdf) list" where
  \<comment> \<open>the files downloaded after the file loop\<close>
  "output_files env s =
     (if (colorPages (results s) > 0 \<and> \<not> save_color_ok env) \<or>
         (bwPages (results s) > 0 \<and> \<not> save_bw_ok env) then []
      else (if colorPages (results s) > 0 \<and> download_color_ok env
            then [(''color_pages.pdf'', colorPDF s)] else []) @
           (if bwPages (results s) > 0 \<and> download_bw_ok env
            then [(''bw_pages.pdf'', bwPDF s)] else []))"

definition is_copy_error :: "log_entry \<Rightarrow> bool" where
  \<comment> \<open>the line written by the handler of the second \<open>try\<close> block of the page loop\<close>
  "is_copy_error e = (case e of Error_copying_page n name \<Rightarrow> True | _ \<Rightarrow> False)"

definition copy_errors :: "file_input \<Rightarrow> log_entry list" where
  \<comment> \<open>one copy-error line for each page of an opened file whose copy fails, in page order\<close>
  "copy_errors doc =
     (if opened doc
      then map (\<lambda>q. Error_copying_page (q + 1) (file_name doc))
             (filter (\<lambda>q. \<not> copy_ok (file_pages doc ! q)) [0..<length (file_pages doc)])
      else [])"

subsection \<open>Example inputs\<close>

definition red_image :: imageData where
  "red_image = [Pixel 255 0 0 255]"

definition white_image :: imageData where
  "white_image = [Pixel 255 255 255 255]"

definition rendered_page :: "imageData \<Rightarrow> page_input" where
  "rendered_page imageData = \<lparr>raster = Some imageData, copy_ok = True\<rparr>"

definition file_A :: file_input where
  "file_A = \<lparr>file_name = ''A.pdf'', read_ok = True, load_ok = True, pdfjs_ok = True,
              file_pages = [rendered_page red_image, rendered_page white_image,
                            rendered_page red_image]\<rparr>"

definition file_B :: file_input where
  "file_B = \<lparr>file_name = ''B.pdf'', read_ok = True, load_ok = True, pdfjs_ok = True,
              file_pages = [rendered_page white_image]\<rparr>"

definition unreadable_file :: file_input where
  "unreadable_file = \<lparr>file_name = ''X.pdf'', read_ok = False, load_ok = False,
                       pdfjs_ok = False, file_pages = []\<rparr>"

definition empty_file :: file_input where
  "empty_file = \<lparr>file_name = ''E.pdf'', read_ok = True, load_ok = True, pdfjs_ok = True,
                  file_pages = []\<rparr>"

definition damaged_file :: file_input where
  \<comment> \<open>page 1 cannot be rendered, page 2 cannot be copied, page 3 is neither rendered nor
     copied\<close>
  "damaged_file = \<lparr>file_name = ''D.pdf'', read_ok = True, load_ok = True, pdfjs_ok = True,
                    file_pages = [\<lparr>raster = None, copy_ok = True\<rparr>,
                                  \<lparr>raster = Some red_image, copy_ok = False\<rparr>,
                                  \<lparr>raster = None, copy_ok = False\<rparr>]\<rparr>"

definition ok_env :: env where
  "ok_env = \<lparr>save_color_ok = True, save_bw_ok = True, download_color_ok = True,
             download_bw_ok = True\<rparr>"

definition idle :: state where
  \<comment> \<open>the component before its first run\<close>
  "idle = \<lparr>processing = False, progress = no_message,
           results = \<lparr>colorPages = 0, bwPages = 0\<rparr>, console = [], downloads = [],
           colorPDF = [], bwPDF = [], colorPdfBytes = None, bwPdfBytes = None\<rparr>"

section \<open>Properties of the rounding function\<close>

subsection \<open>Monotonicity and exact values\<close>



lemma rne_range: "\<lfloor>m\<rfloor> \<le> rne m \<and> rne m \<le> \<lfloor>m\<rfloor> + 1"
  by (simp add: rne_def Let_def)

lemma rne_of_int: "rne (of_int n) = n"
  by (simp add: rne_def Let_def)

lemma rne_mono:
  assumes "x \<le> y"
  shows "rne x \<le> rne y"
proof (cases "\<lfloor>x\<rfloor> = \<lfloor>y\<rfloor>")
  case True
  with assms show ?thesis
    by (auto simp: rne_def Let_def)
next
  case False
  with assms have "\<lfloor>x\<rfloor> < \<lfloor>y\<rfloor>"
    using floor_mono [of x y] by linarith
  then show ?thesis
    using rne_range [of x] rne_range [of y] by linarith
qed

lemma rto_mono:
  assumes "x \<le> y"
  shows "rto k x \<le> rto k y"
proof -
  have u: "(0::rat) < 2 powi k" by simp
  have "x / 2 powi k \<le> y / 2 powi k"
    using assms u by (simp add: divide_right_mono)
  then have "rne (x / 2 powi k) \<le> rne (y / 2 powi k)" by (rule rne_mono)
  then have "(of_int (rne (x / 2 powi k)) :: rat) \<le> of_int (rne (y / 2 powi k))" by simp
  then show ?thesis
    unfolding rto_def using u by (simp add: mult_right_mono)
qed

lemma rto_zero: "rto k 0 = 0"
  by (simp add: rto_def rne_def)

lemma rto_powi:
  assumes "k \<le> e"
  shows "rto k (2 powi e) = 2 powi e"
proof -
  have "(2::rat) powi e / 2 powi k = 2 powi (e - k)"
    by (simp add: power_int_diff)
  also have "\<dots> = of_int (2 ^ nat (e - k))"
    using assms by (simp add: power_int_def)
  finally have "rne (2 powi e / 2 powi k) = 2 ^ nat (e - k)"
    by (simp only: rne_of_int)
  then have "rto k (2 powi e) = of_int (2 ^ nat (e - k)) * 2 powi k"
    by (simp add: rto_def)
  also have "\<dots> = 2 powi (e - k) * 2 powi k"
    using assms by (simp add: power_int_def)
  also have "\<dots> = 2 powi e"
    by (simp add: power_int_add [symmetric])
  finally show ?thesis .
qed

lemma bitlen_powi_bounds:
  assumes "0 < p"
  shows "2 powi (bitlen p - 1) \<le> (of_int p :: rat)" and "(of_int p :: rat) < 2 powi (bitlen p)"
proof -
  have b: "1 \<le> bitlen p" using assms by (auto simp: bitlen_alt_def)
  from bitlen_bounds [OF assms]
  have lo: "2 ^ nat (bitlen p - 1) \<le> p" and hi: "p < 2 ^ nat (bitlen p)" by auto
  have "(of_int (2 ^ nat (bitlen p - 1)) :: rat) \<le> of_int p"
    using lo by (simp only: of_int_le_iff)
  then show "2 powi (bitlen p - 1) \<le> (of_int p :: rat)"
    using b by (simp add: power_int_def)
  have "(of_int p :: rat) < of_int (2 ^ nat (bitlen p))"
    using hi by (simp only: of_int_less_iff)
  then show "(of_int p :: rat) < 2 powi (bitlen p)"
    using b by (simp add: power_int_def)
qed

lemma expo_bounds:
  assumes "0 < x"
  shows "2 powi (expo x) \<le> x" and "x < 2 powi (expo x + 1)"
proof -
  obtain p q where pq: "quotient_of x = (p, q)" by (cases "quotient_of x")
  then have q: "0 < q" by (rule quotient_of_denom_pos)
  have x: "x = of_int p / of_int q" using pq by (rule quotient_of_div)
  have p: "0 < p" using assms q x by (simp add: zero_less_divide_iff)
  define d where "d = bitlen p - bitlen q"
  have e: "expo x = (if 2 powi d \<le> x then d else d - 1)"
    by (simp add: expo_def pq d_def Let_def)
  note bp = bitlen_powi_bounds [OF p] and bq = bitlen_powi_bounds [OF q]
  have qpos: "(0::rat) < of_int q" using q by simp
  have "2 powi (d - 1) * (of_int q :: rat) < 2 powi (d - 1) * 2 powi (bitlen q)"
    using bq(2) by (simp)
  also have "\<dots> = 2 powi (bitlen p - 1)"
    by (simp add: d_def power_int_add [symmetric])
  also have "\<dots> \<le> of_int p" by (rule bp(1))
  finally have lo: "2 powi (d - 1) < x"
    using qpos by (simp add: x pos_less_divide_eq)
  have "(of_int p :: rat) < 2 powi (bitlen p)" by (rule bp(2))
  also have "\<dots> = 2 powi (d + 1) * 2 powi (bitlen q - 1)"
    by (simp add: d_def power_int_add [symmetric])
  also have "\<dots> \<le> 2 powi (d + 1) * of_int q"
    using bq(1) by simp
  finally have hi: "x < 2 powi (d + 1)"
    using qpos by (simp add: x pos_divide_less_eq)
  show "2 powi (expo x) \<le> x" using lo e by (auto simp: less_imp_le)
  show "x < 2 powi (expo x + 1)" using hi e by (auto simp: not_le)
qed

lemma powi2_mono: "i \<le> j \<Longrightarrow> (2::rat) powi i \<le> 2 powi j"
  by (rule power_int_increasing) simp_all

lemma expo_mono:
  assumes "0 < x" "x \<le> y"
  shows "expo x \<le> expo y"
proof (rule ccontr)
  assume "\<not> expo x \<le> expo y"
  then have "expo y + 1 \<le> expo x" by simp
  then have "(2::rat) powi (expo y + 1) \<le> 2 powi (expo x)" by (rule powi2_mono)
  moreover have "y < 2 powi (expo y + 1)" using assms by (intro expo_bounds) simp
  moreover have "2 powi (expo x) \<le> x" using assms by (intro expo_bounds)
  ultimately show False using assms by linarith
qed

lemma fl_pos: "0 < x \<Longrightarrow> fl x = rto (max (expo x - 52) (- 1074)) x"
  by (simp add: fl_def)

lemma fl_zero: "fl 0 = 0"
  by (simp add: fl_def)

lemma fl_minus: "fl (- x) = - fl x"
  by (simp add: fl_def)

lemma fl_mono_pos:
  assumes "0 < x" "x \<le> y"
  shows "fl x \<le> fl y"
proof -
  define kx where "kx = max (expo x - 52) (- 1074)"
  define ky where "ky = max (expo y - 52) (- 1074)"
  have y: "0 < y" using assms by simp
  have fx: "fl x = rto kx x" using assms(1) by (simp add: fl_pos kx_def)
  have fy: "fl y = rto ky y" using y by (simp add: fl_pos ky_def)
  have e: "expo x \<le> expo y" using assms by (rule expo_mono)
  then have "kx \<le> ky" by (simp add: kx_def ky_def)
  then consider "kx = ky" | "kx < ky" by linarith
  then show ?thesis
  proof cases
    case 1
    then show ?thesis using assms(2) by (simp add: fx fy rto_mono)
  next
    case 2
    then have ky: "ky = expo y - 52" and lt: "expo x < expo y"
      by (auto simp: kx_def ky_def max_def split: if_splits)
    have "x \<le> 2 powi (expo x + 1)"
      using expo_bounds(2) [OF assms(1)] by simp
    also have "\<dots> \<le> 2 powi (expo y)" using lt by (intro powi2_mono) simp
    finally have "rto kx x \<le> rto kx (2 powi (expo y))" by (rule rto_mono)
    also have "\<dots> = 2 powi (expo y)"
      using 2 ky by (intro rto_powi) simp
    also have "\<dots> = rto ky (2 powi (expo y))"
      using ky by (intro rto_powi [symmetric]) simp
    also have "\<dots> \<le> rto ky y"
      using expo_bounds(1) [OF y] by (rule rto_mono)
    finally show ?thesis by (simp add: fx fy)
  qed
qed

lemma fl_nonneg:
  assumes "0 \<le> x"
  shows "0 \<le> fl x"
proof (cases "x = 0")
  case True
  then show ?thesis by (simp add: fl_zero)
next
  case False
  with assms have x: "0 < x" by simp
  have "rto (max (expo x - 52) (- 1074)) 0 \<le> rto (max (expo x - 52) (- 1074)) x"
    using assms by (rule rto_mono)
  then show ?thesis using x by (simp add: fl_pos rto_zero)
qed

lemma fl_mono:
  assumes "x \<le> y"
  shows "fl x \<le> fl y"
proof -
  consider "0 < x" | "x \<le> 0" "0 \<le> y" | "y < 0" by linarith
  then show ?thesis
  proof cases
    case 1
    then show ?thesis using assms by (rule fl_mono_pos)
  next
    case 2
    have "0 \<le> fl (- x)" using 2 by (intro fl_nonneg) simp
    then have "fl x \<le> 0" by (simp add: fl_minus)
    also have "0 \<le> fl y" using 2 by (intro fl_nonneg)
    finally show ?thesis .
  next
    case 3
    have "fl (- y) \<le> fl (- x)" using 3 assms by (intro fl_mono_pos) simp_all
    then show ?thesis by (simp add: fl_minus)
  qed
qed

lemma rto_exact:
  assumes "k \<le> j"
  shows "rto k (of_int m * 2 powi j) = of_int m * 2 powi j"
proof -
  have "of_int m * (2::rat) powi j / 2 powi k = of_int m * 2 powi (j - k)"
    by (simp add: power_int_diff)
  also have "\<dots> = of_int (m * 2 ^ nat (j - k))"
    using assms by (simp add: power_int_def)
  finally have "rne (of_int m * 2 powi j / 2 powi k) = m * 2 ^ nat (j - k)"
    by (simp only: rne_of_int)
  then have "rto k (of_int m * 2 powi j) = of_int (m * 2 ^ nat (j - k)) * 2 powi k"
    by (simp add: rto_def)
  also have "\<dots> = of_int m * (2 powi (j - k) * 2 powi k)"
    using assms by (simp add: power_int_def)
  also have "\<dots> = of_int m * 2 powi j"
    by (simp add: power_int_add [symmetric])
  finally show ?thesis .
qed

lemma fl_exact:
  assumes "0 < m" "m < 2 ^ 53" "- 1074 \<le> j"
  shows "fl (of_int m * 2 powi j) = of_int m * 2 powi j"
proof -
  define x :: rat where "x = of_int m * 2 powi j"
  have x: "0 < x" using assms(1) by (simp add: x_def)
  have "(of_int m :: rat) < of_int (2 ^ 53)" using assms(2) by (simp only: of_int_less_iff)
  then have "x < 2 ^ 53 * 2 powi j" by (simp add: x_def)
  also have "\<dots> = 2 powi (53 + j)" by (simp add: power_int_add)
  finally have "2 powi (expo x) < (2::rat) powi (53 + j)"
    using expo_bounds(1) [OF x] by simp
  then have "expo x < 53 + j"
    using powi2_mono [of "53 + j" "expo x"] by (cases "expo x < 53 + j") simp_all
  then have "max (expo x - 52) (- 1074) \<le> j" using assms(3) by simp
  then have "rto (max (expo x - 52) (- 1074)) x = x"
    unfolding x_def by (rule rto_exact)
  then show ?thesis using x by (simp add: fl_pos x_def [symmetric])
qed

lemma fl_of_int:
  assumes "0 \<le> m" "m < 2 ^ 53"
  shows "fl (of_int m) = of_int m"
proof (cases "m = 0")
  case True
  then show ?thesis by (simp add: fl_zero)
next
  case False
  with assms have "0 < m" by simp
  then show ?thesis using fl_exact [of m 0] assms(2) by simp
qed

lemma fl_numerals: "fl 1 = 1" "fl 100 = 100" "fl 6 = 6" "fl 9 = 9" "fl 15 = 15" "fl 75 = 75"
  using fl_of_int [of 1] fl_of_int [of 100] fl_of_int [of 6] fl_of_int [of 9]
    fl_of_int [of 15] fl_of_int [of 75]
  by simp_all

lemma fl_fractions:
  "fl (1/2) = 1/2" "fl (3/4) = 3/4" "fl (7/8) = 7/8" "fl (1/8) = 1/8" "fl (3/2) = 3/2"
  "fl (33/2) = 33/2" "fl (175/2) = 175/2"
  using fl_exact [of 1 "- 1"] fl_exact [of 3 "- 2"] fl_exact [of 7 "- 3"] fl_exact [of 1 "- 3"]
    fl_exact [of 3 "- 1"] fl_exact [of 33 "- 1"] fl_exact [of 175 "- 1"]
  by (simp_all add: power_int_minus)

lemma fl_le: "x \<le> y \<Longrightarrow> fl y = y \<Longrightarrow> fl x \<le> y"
  using fl_mono [of x y] by simp

lemma fl_consts:
  "fl (1/10) < 1" "fl (1/100) < 100" "fl (5/1000) < 100"
  "0 \<le> fl (1/100)" "0 \<le> fl (5/1000)"
  "0 \<le> fl (7/10)" "0 \<le> fl (8/10)"
  "0 \<le> fl (299/1000)" "0 \<le> fl (587/1000)" "0 \<le> fl (114/1000)"
  "fl (7/10) \<le> 3/4" "fl (8/10) \<le> 7/8"
  "fl (299/1000) \<le> 1/2" "fl (587/1000) \<le> 3/4" "fl (114/1000) \<le> 1/8"
proof -
  have a: "fl (1/10) \<le> 1/2" by (rule fl_le) (simp_all add: fl_fractions)
  then show "fl (1/10) < 1" by simp
  have "fl (1/100) \<le> 1/2" by (rule fl_le) (simp_all add: fl_fractions)
  then show "fl (1/100) < 100" by simp
  have "fl (5/1000) \<le> 1/2" by (rule fl_le) (simp_all add: fl_fractions)
  then show "fl (5/1000) < 100" by simp
  show "0 \<le> fl (1/100)" "0 \<le> fl (5/1000)" "0 \<le> fl (7/10)" "0 \<le> fl (8/10)"
    "0 \<le> fl (299/1000)" "0 \<le> fl (587/1000)" "0 \<le> fl (114/1000)"
    by (rule fl_nonneg, simp)+
  show "fl (7/10) \<le> 3/4" by (rule fl_le) (simp_all add: fl_fractions)
  show "fl (8/10) \<le> 7/8" by (rule fl_le) (simp_all add: fl_fractions)
  show "fl (299/1000) \<le> 1/2" by (rule fl_le) (simp_all add: fl_fractions)
  show "fl (587/1000) \<le> 3/4" by (rule fl_le) (simp_all add: fl_fractions)
  show "fl (114/1000) \<le> 1/8" by (rule fl_le) (simp_all add: fl_fractions)
qed

lemma fl_scaled_threshold:
  assumes "t \<le> 100"
  shows "fl (t * fl (7/10)) < 100" and "fl (t * fl (8/10)) < 100"
proof -
  have "t * fl (7/10) \<le> 100 * (3/4)"
    using assms fl_consts(6,11) by (intro mult_mono) simp_all
  then have "fl (t * fl (7/10)) \<le> 75" by (intro fl_le) (simp_all add: fl_numerals)
  then show "fl (t * fl (7/10)) < 100" by simp
  have "t * fl (8/10) \<le> 100 * (7/8)"
    using assms fl_consts(7,12) by (intro mult_mono) simp_all
  then have "fl (t * fl (8/10)) \<le> 175/2" by (intro fl_le) (simp_all add: fl_fractions)
  then show "fl (t * fl (8/10)) < 100" by simp
qed

subsection \<open>Known values\<close>

lemma expo_unique:
  assumes "0 < x" "2 powi e \<le> x" "x < 2 powi (e + 1)"
  shows "expo x = e"
proof (rule antisym)
  show "expo x \<le> e"
  proof (rule ccontr)
    assume "\<not> expo x \<le> e"
    then have "e + 1 \<le> expo x" by simp
    then have "(2::rat) powi (e + 1) \<le> 2 powi (expo x)" by (rule powi2_mono)
    also have "\<dots> \<le> x" using assms(1) by (rule expo_bounds)
    finally show False using assms(3) by simp
  qed
  show "e \<le> expo x"
  proof (rule ccontr)
    assume "\<not> e \<le> expo x"
    then have "expo x + 1 \<le> e" by simp
    then have "(2::rat) powi (expo x + 1) \<le> 2 powi e" by (rule powi2_mono)
    also note assms(2)
    finally show False using expo_bounds(2) [OF assms(1)] by simp
  qed
qed

lemma fl_normal:
  assumes "0 < x" "2 powi e \<le> x" "x < 2 powi (e + 1)" "- 1022 \<le> e"
  shows "fl x = of_int (rne (x / 2 powi (e - 52))) * 2 powi (e - 52)"
proof -
  have "expo x = e" using assms(1-3) by (rule expo_unique)
  moreover have "max (e - 52) (- 1074) = e - 52" using assms(4) by simp
  ultimately show ?thesis using assms(1) by (simp only: fl_pos rto_def)
qed

lemma floor_numeral_divide:
  "\<lfloor>numeral a / numeral b :: rat\<rfloor> = numeral a div numeral b"
  using floor_divide_of_int_eq [of "numeral a" "numeral b", where ?'a = rat] by simp

text \<open>
  Three known binary64 values: the number nearest to 0.1, the sum 0.1 + 0.2, which is
  0.30000000000000004, and the number nearest to 0.3, which is smaller.
\<close>

lemma fl_examples:
  "fl (1/10) = 3602879701896397 / 2 ^ 55"
  "fl (2/10) = 3602879701896397 / 2 ^ 54"
  "fl (3602879701896397 / 2 ^ 55 + 3602879701896397 / 2 ^ 54) = 1351079888211149 / 2 ^ 52"
  "fl (3/10) = 5404319552844595 / 2 ^ 54"
proof -
  show "fl (1/10) = 3602879701896397 / 2 ^ 55"
    by (subst fl_normal [where e = "- 4"])
      (simp_all add: power_int_minus rne_def Let_def floor_numeral_divide)
  show "fl (2/10) = 3602879701896397 / 2 ^ 54"
    by (subst fl_normal [where e = "- 3"])
      (simp_all add: power_int_minus rne_def Let_def floor_numeral_divide)
  show "fl (3602879701896397 / 2 ^ 55 + 3602879701896397 / 2 ^ 54) = 1351079888211149 / 2 ^ 52"
    by (subst fl_normal [where e = "- 2"])
      (simp_all add: power_int_minus rne_def Let_def floor_numeral_divide)
  show "fl (3/10) = 5404319552844595 / 2 ^ 54"
    by (subst fl_normal [where e = "- 2"])
      (simp_all add: power_int_minus rne_def Let_def floor_numeral_divide)
qed

section \<open>Properties of colour detection\<close>

subsection \<open>Threshold monotonicity\<close>

lemma isColorPixel_antimono:
  assumes "t1 \<le> t2" and "isColorPixel t2 lum sat chroma"
  shows "isColorPixel t1 lum sat chroma"
proof -
  have c7: "0 \<le> fl (7/10)" and c8: "0 \<le> fl (8/10)" by (rule fl_nonneg, simp)+
  have "t1 * fl (7/10) \<le> t2 * fl (7/10)" using assms(1) c7 by (rule mult_right_mono)
  then have a: "fl (t1 * fl (7/10)) \<le> fl (t2 * fl (7/10))" by (rule fl_mono)
  have "t1 * fl (8/10) \<le> t2 * fl (8/10)" using assms(1) c8 by (rule mult_right_mono)
  then have b: "fl (t1 * fl (8/10)) \<le> fl (t2 * fl (8/10))" by (rule fl_mono)
  show ?thesis
    using assms a b unfolding isColorPixel_def by (auto split: if_splits)
qed

lemma sample_sampledPixels:
  "sampledPixels (sample t px c) = sampledPixels c + (if uint (chan_a px) < 128 then 0 else 1)"
  by (simp add: sample_def Let_def)

lemma sample_brightPixels:
  "brightPixels (sample t px c) =
     brightPixels c + (if 128 \<le> uint (chan_a px) \<and> 200 < pixel_lum px then 1 else 0)"
  by (simp add: sample_def Let_def pixel_lum_def)

lemma sample_darkPixels:
  "darkPixels (sample t px c) =
     darkPixels c + (if 128 \<le> uint (chan_a px) \<and> \<not> 200 < pixel_lum px \<and> pixel_lum px < 55
                     then 1 else 0)"
  by (simp add: sample_def Let_def pixel_lum_def)

lemma sample_colorPixels:
  "colorPixels (sample t px c) =
     colorPixels c + (if 128 \<le> uint (chan_a px) \<and> pixel_colored t px then 1 else 0)"
  by (simp add: sample_def Let_def pixel_lum_def pixel_max_def pixel_min_def pixel_colored_def)

lemma sample_antimono:
  assumes "t1 \<le> t2" and "same_but_color c1 c2"
  shows "same_but_color (sample t1 px c1) (sample t2 px c2)"
proof -
  have "pixel_colored t2 px \<Longrightarrow> pixel_colored t1 px"
    unfolding pixel_colored_def using assms(1) by (rule isColorPixel_antimono)
  then show ?thesis
    using assms(2) unfolding same_but_color_def
    by (auto simp: sample_sampledPixels sample_brightPixels sample_darkPixels sample_colorPixels)
qed

lemma detectColor_loop_antimono:
  "t1 \<le> t2 \<Longrightarrow> same_but_color c1 c2 \<Longrightarrow>
    same_but_color (detectColor_loop data t1 i c1) (detectColor_loop data t2 i c2)"
proof (induction data t1 i c1 arbitrary: c2 rule: detectColor_loop.induct)
  case (1 data threshold i c)
  show ?case
  proof (cases "i < 4 * length data")
    case True
    have "same_but_color (sample threshold (data ! (i div 4)) c) (sample t2 (data ! (i div 4)) c2)"
      using "1.prems" by (rule sample_antimono)
    with True "1.prems"(1)
    have "same_but_color
            (detectColor_loop data threshold (i + 40) (sample threshold (data ! (i div 4)) c))
            (detectColor_loop data t2 (i + 40) (sample t2 (data ! (i div 4)) c2))"
      by (rule "1.IH")
    then show ?thesis
      using True
      by (simp add: detectColor_loop.simps [of data threshold i]
            detectColor_loop.simps [of data t2 i])
  next
    case False
    then show ?thesis
      using "1.prems"
      by (simp add: detectColor_loop.simps [of data threshold i]
            detectColor_loop.simps [of data t2 i])
  qed
qed

subsection \<open>Grey pixels\<close>

lemma grey_not_colored:
  assumes "chan_r px = chan_g px" "chan_g px = chan_b px" "0 \<le> t"
  shows "\<not> pixel_colored t px"
proof -
  have m: "pixel_max px = pixel_min px"
    using assms(1,2) by (simp add: pixel_max_def pixel_min_def)
  have sat: "saturation (pixel_min px) (pixel_min px) = 0"
    by (simp add: saturation_def fl_zero)
  have "0 \<le> fl (t * fl (7/10))" "0 \<le> fl (t * fl (8/10))"
    using assms(3) fl_consts(6,7) by (simp_all add: fl_nonneg)
  then show ?thesis
    unfolding pixel_colored_def m sat isColorPixel_def
    using assms(3) by (simp add: fl_zero)
qed

lemma detectColor_loop_none_colored:
  "i mod 40 = 0 \<Longrightarrow>
   \<forall>j < length data. j mod 10 = 0 \<longrightarrow> \<not> pixel_colored t (data ! j) \<Longrightarrow>
   colorPixels (detectColor_loop data t i c) = colorPixels c"
proof (induction data t i c rule: detectColor_loop.induct)
  case (1 data threshold i c)
  show ?case
  proof (cases "i < 4 * length data")
    case True
    from "1.prems"(1) have m: "(i div 4) mod 10 = 0" and n: "(i + 40) mod 40 = 0" by presburger+
    from True have "i div 4 < length data" by simp
    with m "1.prems"(2) have "\<not> pixel_colored threshold (data ! (i div 4))" by simp
    then have "colorPixels (sample threshold (data ! (i div 4)) c) = colorPixels c"
      by (simp add: sample_colorPixels)
    moreover
    have "colorPixels (detectColor_loop data threshold (i + 40) (sample threshold (data ! (i div 4)) c))
        = colorPixels (sample threshold (data ! (i div 4)) c)"
      using True n "1.prems"(2) by (rule "1.IH")
    ultimately show ?thesis
      using True by (simp add: detectColor_loop.simps [of data threshold i])
  next
    case False
    then show ?thesis by (simp add: detectColor_loop.simps [of data threshold i])
  qed
qed

lemma detectColor_none_colored:
  assumes "\<forall>j < length buffer. j mod 10 = 0 \<longrightarrow> \<not> pixel_colored t (buffer ! j)"
  shows "detectColor buffer t = False"
proof -
  define z where "z = \<lparr>colorPixels = 0, sampledPixels = 0, brightPixels = 0, darkPixels = 0\<rparr>"
  define c where "c = detectColor_loop buffer t 0 z"
  have "colorPixels c = colorPixels z"
    unfolding c_def using assms by (intro detectColor_loop_none_colored) simp_all
  then have "colorPixels c = 0" by (simp add: z_def)
  then have "fl (fl (of_nat (colorPixels c) / of_nat (sampledPixels c)) * 100) = 0"
    by (simp add: fl_zero)
  then show ?thesis
    unfolding detectColor_def z_def [symmetric] c_def [symmetric] Let_def
    using fl_consts(4,5) by (simp add: not_less)
qed

lemma detectColor_grey:
  assumes "\<forall>px \<in> set buffer. chan_r px = chan_g px \<and> chan_g px = chan_b px" and "0 \<le> t"
  shows "detectColor buffer t = False"
  using assms by (intro detectColor_none_colored) (simp add: grey_not_colored)

subsection \<open>Empty sample\<close>

lemma sample_transparent: "uint (chan_a px) < 128 \<Longrightarrow> sample t px c = c"
  by (simp add: sample_def)

lemma detectColor_loop_transparent:
  "i mod 40 = 0 \<Longrightarrow> \<forall>j < length data. j mod 10 = 0 \<longrightarrow> uint (chan_a (data ! j)) < 128 \<Longrightarrow>
   detectColor_loop data t i c = c"
proof (induction data t i c rule: detectColor_loop.induct)
  case (1 data threshold i c)
  show ?case
  proof (cases "i < 4 * length data")
    case True
    from "1.prems"(1) have m: "(i div 4) mod 10 = 0" and n: "(i + 40) mod 40 = 0" by presburger+
    from True have "i div 4 < length data" by simp
    with m "1.prems"(2) have "uint (chan_a (data ! (i div 4))) < 128" by simp
    then have "sample threshold (data ! (i div 4)) c = c" by (rule sample_transparent)
    moreover have "detectColor_loop data threshold (i + 40) (sample threshold (data ! (i div 4)) c)
        = sample threshold (data ! (i div 4)) c"
      using True n "1.prems"(2) by (rule "1.IH")
    ultimately show ?thesis
      using True by (simp add: detectColor_loop.simps [of data threshold i])
  next
    case False
    then show ?thesis by (simp add: detectColor_loop.simps [of data threshold i])
  qed
qed

subsection \<open>Saturated hues\<close>

lemma luminance_mono:
  assumes "r \<le> r'" "g \<le> g'" "b \<le> b'"
  shows "luminance r g b \<le> luminance r' g' b'"
proof -
  have r: "fl (fl (299/1000) * of_int r) \<le> fl (fl (299/1000) * of_int r')"
    using assms(1) fl_consts(8) by (intro fl_mono mult_left_mono) simp_all
  have g: "fl (fl (587/1000) * of_int g) \<le> fl (fl (587/1000) * of_int g')"
    using assms(2) fl_consts(9) by (intro fl_mono mult_left_mono) simp_all
  have b: "fl (fl (114/1000) * of_int b) \<le> fl (fl (114/1000) * of_int b')"
    using assms(3) fl_consts(10) by (intro fl_mono mult_left_mono) simp_all
  from r g have "fl (fl (299/1000) * of_int r) + fl (fl (587/1000) * of_int g)
      \<le> fl (fl (299/1000) * of_int r') + fl (fl (587/1000) * of_int g')"
    by (rule add_mono)
  then have "fl (fl (fl (299/1000) * of_int r) + fl (fl (587/1000) * of_int g))
      \<le> fl (fl (fl (299/1000) * of_int r') + fl (fl (587/1000) * of_int g'))"
    by (rule fl_mono)
  then have "fl (fl (fl (299/1000) * of_int r) + fl (fl (587/1000) * of_int g))
        + fl (fl (114/1000) * of_int b)
      \<le> fl (fl (fl (299/1000) * of_int r') + fl (fl (587/1000) * of_int g'))
        + fl (fl (114/1000) * of_int b')"
    using b by (rule add_mono)
  then show ?thesis
    unfolding luminance_def by (rule fl_mono)
qed

lemma luminance_12: "luminance 12 12 12 < 55"
proof -
  have "fl (299/1000) * 12 \<le> 6" using fl_consts(13) by simp
  then have r: "fl (fl (299/1000) * 12) \<le> 6" by (intro fl_le) (simp_all add: fl_numerals)
  have "fl (587/1000) * 12 \<le> 9" using fl_consts(14) by simp
  then have g: "fl (fl (587/1000) * 12) \<le> 9" by (intro fl_le) (simp_all add: fl_numerals)
  have "fl (114/1000) * 12 \<le> 3/2" using fl_consts(15) by simp
  then have b: "fl (fl (114/1000) * 12) \<le> 3/2" by (intro fl_le) (simp_all add: fl_fractions)
  have "fl (fl (299/1000) * 12) + fl (fl (587/1000) * 12) \<le> 15" using r g by simp
  then have "fl (fl (fl (299/1000) * 12) + fl (fl (587/1000) * 12)) \<le> 15"
    by (intro fl_le) (simp_all add: fl_numerals)
  with b have "fl (fl (fl (299/1000) * 12) + fl (fl (587/1000) * 12))
      + fl (fl (114/1000) * 12) \<le> 33/2" by simp
  then have "luminance 12 12 12 \<le> 33/2"
    unfolding luminance_def by (intro fl_le) (simp_all add: fl_fractions)
  then show ?thesis by simp
qed

lemma saturated_hue_colored:
  assumes mn: "pixel_min px = 0" and mx: "0 < pixel_max px"
    and t: "10 \<le> t" "t \<le> 100"
  shows "pixel_colored t px"
proof -
  have sat: "saturation (pixel_max px) (pixel_min px) = 1"
    using mn mx by (simp add: saturation_def fl_numerals)
  note a = fl_scaled_threshold(1) [OF t(2)] and b = fl_scaled_threshold(2) [OF t(2)]
  have c: "12 < pixel_max px" if "\<not> pixel_lum px < 55"
  proof (rule ccontr)
    assume "\<not> 12 < pixel_max px"
    then have "uint (chan_r px) \<le> 12" "uint (chan_g px) \<le> 12" "uint (chan_b px) \<le> 12"
      by (simp_all add: pixel_max_def)
    then have "pixel_lum px \<le> luminance 12 12 12"
      unfolding pixel_lum_def by (rule luminance_mono)
    with luminance_12 that show False by simp
  qed
  show ?thesis
    unfolding pixel_colored_def sat isColorPixel_def
    using a b c mn fl_numerals(1,2) fl_consts(1) by simp
qed

lemma detectColor_loop_sampled_mono:
  "sampledPixels c \<le> sampledPixels (detectColor_loop data t i c)"
proof (induction data t i c rule: detectColor_loop.induct)
  case (1 data threshold i c)
  show ?case
  proof (cases "i < 4 * length data")
    case True
    have "sampledPixels c \<le> sampledPixels (sample threshold (data ! (i div 4)) c)"
      by (simp add: sample_sampledPixels)
    also have "\<dots> \<le> sampledPixels
        (detectColor_loop data threshold (i + 40) (sample threshold (data ! (i div 4)) c))"
      using True by (rule "1.IH")
    finally show ?thesis
      using True by (simp add: detectColor_loop.simps [of data threshold i])
  next
    case False
    then show ?thesis by (simp add: detectColor_loop.simps [of data threshold i])
  qed
qed

lemma detectColor_loop_all_colored:
  "i mod 40 = 0 \<Longrightarrow>
   \<forall>j < length data. j mod 10 = 0 \<longrightarrow>
      128 \<le> uint (chan_a (data ! j)) \<and> pixel_colored t (data ! j) \<Longrightarrow>
   colorPixels c = sampledPixels c \<Longrightarrow>
   colorPixels (detectColor_loop data t i c) = sampledPixels (detectColor_loop data t i c)"
proof (induction data t i c rule: detectColor_loop.induct)
  case (1 data threshold i c)
  show ?case
  proof (cases "i < 4 * length data")
    case True
    from "1.prems"(1) have m: "(i div 4) mod 10 = 0" and n: "(i + 40) mod 40 = 0" by presburger+
    from True have "i div 4 < length data" by simp
    with m "1.prems"(2)
    have "128 \<le> uint (chan_a (data ! (i div 4))) \<and> pixel_colored threshold (data ! (i div 4))"
      by simp
    then have "colorPixels (sample threshold (data ! (i div 4)) c)
        = sampledPixels (sample threshold (data ! (i div 4)) c)"
      using "1.prems"(3) by (simp add: sample_sampledPixels sample_colorPixels)
    with True n "1.prems"(2)
    have "colorPixels (detectColor_loop data threshold (i + 40) (sample threshold (data ! (i div 4)) c))
       = sampledPixels (detectColor_loop data threshold (i + 40) (sample threshold (data ! (i div 4)) c))"
      by (rule "1.IH")
    then show ?thesis
      using True by (simp add: detectColor_loop.simps [of data threshold i])
  next
    case False
    then show ?thesis
      using "1.prems"(3) by (simp add: detectColor_loop.simps [of data threshold i])
  qed
qed

lemma detectColor_all_colored:
  assumes ne: "buffer \<noteq> []"
    and all: "\<forall>j < length buffer. j mod 10 = 0 \<longrightarrow>
      128 \<le> uint (chan_a (buffer ! j)) \<and> pixel_colored t (buffer ! j)"
  shows "detectColor buffer t"
proof -
  define z where "z = \<lparr>colorPixels = 0, sampledPixels = 0, brightPixels = 0, darkPixels = 0\<rparr>"
  define c where "c = detectColor_loop buffer t 0 z"
  have eq: "colorPixels c = sampledPixels c"
    unfolding c_def using all by (intro detectColor_loop_all_colored) (simp_all add: z_def)
  have 0: "128 \<le> uint (chan_a (buffer ! 0))" using ne all by simp
  have "c = detectColor_loop buffer t 40 (sample t (buffer ! 0) z)"
    unfolding c_def using ne by (simp add: detectColor_loop.simps [of buffer t 0])
  moreover have "sampledPixels (sample t (buffer ! 0) z) = 1"
    using 0 by (simp add: sample_sampledPixels z_def)
  ultimately have pos: "1 \<le> sampledPixels c"
    using detectColor_loop_sampled_mono [of "sample t (buffer ! 0) z" buffer t 40] by simp
  then have "(of_nat (colorPixels c) :: rat) / of_nat (sampledPixels c) = 1"
    by (simp add: eq)
  then have "fl (fl (of_nat (colorPixels c) / of_nat (sampledPixels c)) * 100) = 100"
    by (simp add: fl_numerals)
  then show ?thesis
    unfolding detectColor_def z_def [symmetric] c_def [symmetric] Let_def
    using pos fl_consts(2,3) by simp
qed

section \<open>Properties of the pipeline\<close>

subsection \<open>One page\<close>

lemma process_page_colorPDF:
  "colorPDF (process_page t doc fi p s) =
     colorPDF s @ (if copy_ok (file_pages doc ! p) \<and> page_is_color t (file_pages doc ! p)
                   then [SourcePage fi p] else [])"
  by (simp add: process_page_def detect_page_def copy_page_def Let_def page_is_color_def
      split: option.split)

lemma process_page_bwPDF:
  "bwPDF (process_page t doc fi p s) =
     bwPDF s @ (if copy_ok (file_pages doc ! p) \<and> \<not> page_is_color t (file_pages doc ! p)
                then [SourcePage fi p] else [])"
  by (simp add: process_page_def detect_page_def copy_page_def Let_def page_is_color_def
      split: option.split)

lemma process_page_colorPages:
  "colorPages (results (process_page t doc fi p s)) =
     colorPages (results s) +
       (if copy_ok (file_pages doc ! p) \<and> page_is_color t (file_pages doc ! p) then 1 else 0)"
  by (simp add: process_page_def detect_page_def copy_page_def Let_def page_is_color_def
      split: option.split)

lemma process_page_bwPages:
  "bwPages (results (process_page t doc fi p s)) =
     bwPages (results s) +
       (if copy_ok (file_pages doc ! p) \<and> \<not> page_is_color t (file_pages doc ! p) then 1 else 0)"
  by (simp add: process_page_def detect_page_def copy_page_def Let_def page_is_color_def
      split: option.split)

lemma process_page_console:
  "console (process_page t doc fi p s) = console s @ page_log doc p"
  by (simp add: process_page_def detect_page_def copy_page_def Let_def page_log_def
      split: option.split)

lemma process_page_downloads:
  "downloads (process_page t doc fi p s) = downloads s"
  by (simp add: process_page_def detect_page_def copy_page_def Let_def split: option.split)

subsection \<open>The pages of one file\<close>

lemma page_loop_colorPDF_count:
  "count_list (colorPDF (page_loop t doc fi i s)) (SourcePage f p) =
     count_list (colorPDF s) (SourcePage f p) +
       (if f = fi \<and> i \<le> p \<and> p < length (file_pages doc) \<and> copy_ok (file_pages doc ! p)
           \<and> page_is_color t (file_pages doc ! p) then 1 else 0)"
proof (induction t doc fi i s rule: page_loop.induct)
  case (1 t doc fi i s)
  show ?case
  proof (cases "i < length (file_pages doc)")
    case True
    then show ?thesis
      using "1.IH" [OF True]
      by (subst page_loop.simps) (auto simp: process_page_colorPDF)
  next
    case False
    then show ?thesis by (subst page_loop.simps) simp
  qed
qed

lemma page_loop_bwPDF_count:
  "count_list (bwPDF (page_loop t doc fi i s)) (SourcePage f p) =
     count_list (bwPDF s) (SourcePage f p) +
       (if f = fi \<and> i \<le> p \<and> p < length (file_pages doc) \<and> copy_ok (file_pages doc ! p)
           \<and> \<not> page_is_color t (file_pages doc ! p) then 1 else 0)"
proof (induction t doc fi i s rule: page_loop.induct)
  case (1 t doc fi i s)
  show ?case
  proof (cases "i < length (file_pages doc)")
    case True
    then show ?thesis
      using "1.IH" [OF True]
      by (subst page_loop.simps) (auto simp: process_page_bwPDF)
  next
    case False
    then show ?thesis by (subst page_loop.simps) simp
  qed
qed

lemma filter_nth_upt: "length (filter (\<lambda>p. P (xs ! p)) [0..<length xs]) = length (filter P xs)"
proof -
  have "filter P xs = filter P (map ((!) xs) [0..<length xs])" by (simp add: map_nth)
  also have "length \<dots> = length (filter (\<lambda>p. P (xs ! p)) [0..<length xs])"
    by (simp add: filter_map comp_def)
  finally show ?thesis by simp
qed

lemma page_loop_colorPages:
  "colorPages (results (page_loop t doc fi i s)) =
     colorPages (results s) +
       length (filter (\<lambda>p. copy_ok (file_pages doc ! p) \<and> page_is_color t (file_pages doc ! p) = True)
                 [i..<length (file_pages doc)])"
proof (induction t doc fi i s rule: page_loop.induct)
  case (1 t doc fi i s)
  show ?case
  proof (cases "i < length (file_pages doc)")
    case True
    then show ?thesis
      using "1.IH" [OF True]
      by (subst page_loop.simps) (simp add: process_page_colorPages upt_conv_Cons)
  next
    case False
    then show ?thesis by (subst page_loop.simps) simp
  qed
qed

lemma page_loop_bwPages:
  "bwPages (results (page_loop t doc fi i s)) =
     bwPages (results s) +
       length (filter (\<lambda>p. copy_ok (file_pages doc ! p) \<and> page_is_color t (file_pages doc ! p) = False)
                 [i..<length (file_pages doc)])"
proof (induction t doc fi i s rule: page_loop.induct)
  case (1 t doc fi i s)
  show ?case
  proof (cases "i < length (file_pages doc)")
    case True
    then show ?thesis
      using "1.IH" [OF True]
      by (subst page_loop.simps) (simp add: process_page_bwPages upt_conv_Cons)
  next
    case False
    then show ?thesis by (subst page_loop.simps) simp
  qed
qed

lemma page_loop_console:
  "console (page_loop t doc fi i s) =
     console s @ concat (map (page_log doc) [i..<length (file_pages doc)])"
proof (induction t doc fi i s rule: page_loop.induct)
  case (1 t doc fi i s)
  show ?case
  proof (cases "i < length (file_pages doc)")
    case True
    then show ?thesis
      using "1.IH" [OF True]
      by (subst page_loop.simps) (simp add: process_page_console upt_conv_Cons)
  next
    case False
    then show ?thesis by (subst page_loop.simps) simp
  qed
qed

lemma page_loop_downloads: "downloads (page_loop t doc fi i s) = downloads s"
proof (induction t doc fi i s rule: page_loop.induct)
  case (1 t doc fi i s)
  show ?case
  proof (cases "i < length (file_pages doc)")
    case True
    then show ?thesis
      using "1.IH" [OF True]
      by (subst page_loop.simps) (simp add: process_page_downloads)
  next
    case False
    then show ?thesis by (subst page_loop.simps) simp
  qed
qed

lemma process_page_counted: "counted s \<Longrightarrow> counted (process_page t doc fi p s)"
  by (simp add: counted_def process_page_colorPDF process_page_bwPDF
      process_page_colorPages process_page_bwPages)

lemma page_loop_counted: "counted s \<Longrightarrow> counted (page_loop t doc fi i s)"
proof (induction t doc fi i s rule: page_loop.induct)
  case (1 t doc fi i s)
  show ?case
  proof (cases "i < length (file_pages doc)")
    case True
    then show ?thesis
      using "1.IH" [OF True] "1.prems"
      by (subst page_loop.simps) (simp add: process_page_counted)
  next
    case False
    then show ?thesis using "1.prems" by (subst page_loop.simps) simp
  qed
qed

subsection \<open>One file\<close>

lemma process_file_colorPDF_count:
  "count_list (colorPDF (process_file t sep files k s)) (SourcePage f p) =
     count_list (colorPDF s) (SourcePage f p) +
       (if f = k \<and> opened (files ! k) \<and> p < length (file_pages (files ! k))
           \<and> copy_ok (file_pages (files ! k) ! p)
           \<and> page_is_color t (file_pages (files ! k) ! p) then 1 else 0)"
  by (simp add: process_file_def Let_def opened_def page_loop_colorPDF_count)

lemma process_file_bwPDF_count:
  "count_list (bwPDF (process_file t sep files k s)) (SourcePage f p) =
     count_list (bwPDF s) (SourcePage f p) +
       (if f = k \<and> opened (files ! k) \<and> p < length (file_pages (files ! k))
           \<and> copy_ok (file_pages (files ! k) ! p)
           \<and> \<not> page_is_color t (file_pages (files ! k) ! p) then 1 else 0)"
  by (simp add: process_file_def Let_def opened_def page_loop_bwPDF_count)

lemma process_file_colorPages:
  "colorPages (results (process_file t sep files k s)) =
     colorPages (results s) + copied t True (files ! k)"
  using filter_nth_upt [of "\<lambda>pg. copy_ok pg \<and> page_is_color t pg = True" "file_pages (files ! k)"]
  by (simp add: process_file_def Let_def opened_def copied_def page_loop_colorPages)

lemma process_file_bwPages:
  "bwPages (results (process_file t sep files k s)) =
     bwPages (results s) + copied t False (files ! k)"
  using filter_nth_upt [of "\<lambda>pg. copy_ok pg \<and> page_is_color t pg = False" "file_pages (files ! k)"]
  by (simp add: process_file_def Let_def opened_def copied_def page_loop_bwPages)

lemma process_file_console:
  "console (process_file t sep files k s) = console s @ file_log (files ! k)"
  by (simp add: process_file_def Let_def file_log_def page_loop_console)

lemma process_file_downloads: "downloads (process_file t sep files k s) = downloads s"
  by (simp add: process_file_def Let_def page_loop_downloads)

lemma process_file_counted: "counted s \<Longrightarrow> counted (process_file t sep files k s)"
proof -
  assume a: "counted s"
  have b: "counted (s\<lparr>progress := m\<rparr>)" for m using a by (simp add: counted_def)
  have c: "counted (s\<lparr>progress := m, colorPDF := colorPDF s @ [BlankPage],
              bwPDF := bwPDF s @ [BlankPage]\<rparr>)" for m
    using a by (simp add: counted_def)
  show ?thesis
    using a b c by (simp add: process_file_def Let_def page_loop_counted) (simp add: counted_def)
qed

subsection \<open>All files\<close>

lemma file_loop_colorPDF_count:
  "count_list (colorPDF (file_loop t sep files i s)) (SourcePage f p) =
     count_list (colorPDF s) (SourcePage f p) +
       (if i \<le> f \<and> f < length files \<and> opened (files ! f)
           \<and> p < length (file_pages (files ! f))
           \<and> copy_ok (file_pages (files ! f) ! p)
           \<and> page_is_color t (file_pages (files ! f) ! p) then 1 else 0)"
proof (induction t sep files i s rule: file_loop.induct)
  case (1 t sep files i s)
  show ?case
  proof (cases "i < length files")
    case True
    have "i \<le> f \<longleftrightarrow> f = i \<or> Suc i \<le> f" by arith
    with True show ?thesis
      using "1.IH" [OF True]
      by (subst file_loop.simps) (auto simp: process_file_colorPDF_count)
  next
    case False
    then show ?thesis by (subst file_loop.simps) simp
  qed
qed

lemma file_loop_bwPDF_count:
  "count_list (bwPDF (file_loop t sep files i s)) (SourcePage f p) =
     count_list (bwPDF s) (SourcePage f p) +
       (if i \<le> f \<and> f < length files \<and> opened (files ! f)
           \<and> p < length (file_pages (files ! f))
           \<and> copy_ok (file_pages (files ! f) ! p)
           \<and> \<not> page_is_color t (file_pages (files ! f) ! p) then 1 else 0)"
proof (induction t sep files i s rule: file_loop.induct)
  case (1 t sep files i s)
  show ?case
  proof (cases "i < length files")
    case True
    have "i \<le> f \<longleftrightarrow> f = i \<or> Suc i \<le> f" by arith
    with True show ?thesis
      using "1.IH" [OF True]
      by (subst file_loop.simps) (auto simp: process_file_bwPDF_count)
  next
    case False
    then show ?thesis by (subst file_loop.simps) simp
  qed
qed

lemma file_loop_colorPages:
  "colorPages (results (file_loop t sep files i s)) =
     colorPages (results s) + sum_list (map (\<lambda>k. copied t True (files ! k)) [i..<length files])"
proof (induction t sep files i s rule: file_loop.induct)
  case (1 t sep files i s)
  show ?case
  proof (cases "i < length files")
    case True
    then show ?thesis
      using "1.IH" [OF True]
      by (subst file_loop.simps) (simp add: process_file_colorPages upt_conv_Cons)
  next
    case False
    then show ?thesis by (subst file_loop.simps) simp
  qed
qed

lemma file_loop_bwPages:
  "bwPages (results (file_loop t sep files i s)) =
     bwPages (results s) + sum_list (map (\<lambda>k. copied t False (files ! k)) [i..<length files])"
proof (induction t sep files i s rule: file_loop.induct)
  case (1 t sep files i s)
  show ?case
  proof (cases "i < length files")
    case True
    then show ?thesis
      using "1.IH" [OF True]
      by (subst file_loop.simps) (simp add: process_file_bwPages upt_conv_Cons)
  next
    case False
    then show ?thesis by (subst file_loop.simps) simp
  qed
qed

lemma file_loop_console:
  "console (file_loop t sep files i s) =
     console s @ concat (map (\<lambda>k. file_log (files ! k)) [i..<length files])"
proof (induction t sep files i s rule: file_loop.induct)
  case (1 t sep files i s)
  show ?case
  proof (cases "i < length files")
    case True
    then show ?thesis
      using "1.IH" [OF True]
      by (subst file_loop.simps) (simp add: process_file_console upt_conv_Cons)
  next
    case False
    then show ?thesis by (subst file_loop.simps) simp
  qed
qed

lemma file_loop_downloads: "downloads (file_loop t sep files i s) = downloads s"
proof (induction t sep files i s rule: file_loop.induct)
  case (1 t sep files i s)
  show ?case
  proof (cases "i < length files")
    case True
    then show ?thesis
      using "1.IH" [OF True]
      by (subst file_loop.simps) (simp add: process_file_downloads)
  next
    case False
    then show ?thesis by (subst file_loop.simps) simp
  qed
qed

lemma file_loop_counted: "counted s \<Longrightarrow> counted (file_loop t sep files i s)"
proof (induction t sep files i s rule: file_loop.induct)
  case (1 t sep files i s)
  show ?case
  proof (cases "i < length files")
    case True
    then show ?thesis
      using "1.IH" [OF True] "1.prems"
      by (subst file_loop.simps) (simp add: process_file_counted)
  next
    case False
    then show ?thesis using "1.prems" by (subst file_loop.simps) simp
  qed
qed

lemma map_nth_upt: "map (\<lambda>k. g (xs ! k)) [0..<length xs] = map g xs"
proof -
  have "map g xs = map g (map ((!) xs) [0..<length xs])" by (simp add: map_nth)
  then show ?thesis by (simp add: comp_def)
qed

subsection \<open>After the file loop\<close>

lemma generate_failed_fields:
  "colorPDF (generate_failed s) = colorPDF s"
  "bwPDF (generate_failed s) = bwPDF s"
  "results (generate_failed s) = results s"
  "downloads (generate_failed s) = downloads s"
  "colorPdfBytes (generate_failed s) = colorPdfBytes s"
  "bwPdfBytes (generate_failed s) = bwPdfBytes s"
  "console (generate_failed s) = console s @ [Error_generating_PDFs]"
  "progress (generate_failed s) = error_generating_pdfs"
  by (simp_all add: generate_failed_def)

lemma download_color_fields:
  "colorPDF (download_color env s) = colorPDF s"
  "bwPDF (download_color env s) = bwPDF s"
  "results (download_color env s) = results s"
  "colorPdfBytes (download_color env s) = colorPdfBytes s"
  "bwPdfBytes (download_color env s) = bwPdfBytes s"
  by (simp_all add: download_color_def split: option.split)

lemma download_color_console:
  "console (download_color env s) =
     console s @ (if colorPdfBytes s \<noteq> None \<and> colorPages (results s) > 0 \<and> \<not> download_color_ok env
                  then [Error_downloading_color_PDF] else [])"
  by (simp add: download_color_def split: option.split)

lemma download_color_downloads:
  "downloads (download_color env s) =
     downloads s @ (case colorPdfBytes s of
                      None \<Rightarrow> []
                    | Some bytes \<Rightarrow> if colorPages (results s) > 0 \<and> download_color_ok env
                                    then [(''color_pages.pdf'', bytes)] else [])"
  by (simp add: download_color_def split: option.split)

lemma download_bw_fields:
  "colorPDF (download_bw env s) = colorPDF s"
  "bwPDF (download_bw env s) = bwPDF s"
  "results (download_bw env s) = results s"
  "colorPdfBytes (download_bw env s) = colorPdfBytes s"
  "bwPdfBytes (download_bw env s) = bwPdfBytes s"
  by (simp_all add: download_bw_def split: option.split)

lemma download_bw_console:
  "console (download_bw env s) =
     console s @ (if bwPdfBytes s \<noteq> None \<and> bwPages (results s) > 0 \<and> \<not> download_bw_ok env
                  then [Error_downloading_BW_PDF] else [])"
  by (simp add: download_bw_def split: option.split)

lemma download_bw_downloads:
  "downloads (download_bw env s) =
     downloads s @ (case bwPdfBytes s of
                      None \<Rightarrow> []
                    | Some bytes \<Rightarrow> if bwPages (results s) > 0 \<and> download_bw_ok env
                                    then [(''bw_pages.pdf'', bytes)] else [])"
  by (simp add: download_bw_def split: option.split)

lemmas finish_fields = generate_failed_fields download_color_fields download_bw_fields
  download_color_console download_bw_console download_color_downloads download_bw_downloads

lemma generate_and_download_colorPDF: "colorPDF (generate_and_download env s) = colorPDF s"
  by (simp add: generate_and_download_def Let_def finish_fields)

lemma generate_and_download_bwPDF: "bwPDF (generate_and_download env s) = bwPDF s"
  by (simp add: generate_and_download_def Let_def finish_fields)

lemma generate_and_download_results: "results (generate_and_download env s) = results s"
  by (simp add: generate_and_download_def Let_def finish_fields)

lemma generate_and_download_console:
  "console (generate_and_download env s) = console s @ output_log env (results s)"
  by (simp add: generate_and_download_def Let_def finish_fields output_log_def)

lemma generate_and_download_downloads:
  "downloads (generate_and_download env s) = downloads s @ output_files env s"
  by (simp add: generate_and_download_def Let_def finish_fields output_files_def)

lemma generate_and_download_colorPdfBytes:
  "colorPdfBytes (generate_and_download env s) =
     (if colorPages (results s) > 0 \<and> save_color_ok env then Some (colorPDF s) else None)"
  by (simp add: generate_and_download_def Let_def finish_fields)

lemma generate_and_download_bwPdfBytes:
  "bwPdfBytes (generate_and_download env s) =
     (if bwPages (results s) > 0 \<and> save_bw_ok env \<and>
         (colorPages (results s) > 0 \<longrightarrow> save_color_ok env)
      then Some (bwPDF s) else None)"
  by (simp add: generate_and_download_def Let_def finish_fields)

lemma generate_and_download_progress:
  "progress (generate_and_download env s) =
     (if (colorPages (results s) > 0 \<and> \<not> save_color_ok env) \<or>
         (bwPages (results s) > 0 \<and> \<not> save_bw_ok env) then error_generating_pdfs
      else if colorPages (results s) = 0 \<and> bwPages (results s) = 0 then error_no_pages
      else progress_complete)"
  by (simp add: generate_and_download_def Let_def finish_fields)

subsection \<open>A whole run\<close>

lemma processPDFs_Some:
  assumes "fs \<noteq> []"
  shows "processPDFs env (Some fs) t sep s =
    (generate_and_download env
      (file_loop t sep fs 0
        (s\<lparr>processing := True, progress := progress_starting,
           results := \<lparr>colorPages = 0, bwPages = 0\<rparr>, colorPDF := [], bwPDF := []\<rparr>)))
    \<lparr>processing := False\<rparr>"
  using assms by (simp add: processPDFs_def Let_def)

lemma run_colorPDF_count:
  assumes "fs \<noteq> []"
  shows "count_list (colorPDF (processPDFs env (Some fs) t sep s)) (SourcePage f p) =
    (if f < length fs \<and> opened (fs ! f) \<and> p < length (file_pages (fs ! f))
        \<and> copy_ok (file_pages (fs ! f) ! p) \<and> page_is_color t (file_pages (fs ! f) ! p)
     then 1 else 0)"
  by (simp add: processPDFs_Some [OF assms] generate_and_download_colorPDF
      file_loop_colorPDF_count)

lemma run_bwPDF_count:
  assumes "fs \<noteq> []"
  shows "count_list (bwPDF (processPDFs env (Some fs) t sep s)) (SourcePage f p) =
    (if f < length fs \<and> opened (fs ! f) \<and> p < length (file_pages (fs ! f))
        \<and> copy_ok (file_pages (fs ! f) ! p) \<and> \<not> page_is_color t (file_pages (fs ! f) ! p)
     then 1 else 0)"
  by (simp add: processPDFs_Some [OF assms] generate_and_download_bwPDF
      file_loop_bwPDF_count)

lemma run_results:
  assumes "fs \<noteq> []"
  shows "results (processPDFs env (Some fs) t sep s) =
    \<lparr>colorPages = sum_list (map (copied t True) fs),
     bwPages = sum_list (map (copied t False) fs)\<rparr>"
proof -
  have "colorPages (results (processPDFs env (Some fs) t sep s)) = sum_list (map (copied t True) fs)"
    using map_nth_upt [of "copied t True" fs]
    by (simp add: processPDFs_Some [OF assms] generate_and_download_results file_loop_colorPages)
  moreover
  have "bwPages (results (processPDFs env (Some fs) t sep s)) = sum_list (map (copied t False) fs)"
    using map_nth_upt [of "copied t False" fs]
    by (simp add: processPDFs_Some [OF assms] generate_and_download_results file_loop_bwPages)
  ultimately show ?thesis by simp
qed

lemma run_console:
  assumes "fs \<noteq> []"
  shows "console (processPDFs env (Some fs) t sep s) =
    console s @ concat (map file_log fs) @
      output_log env (results (processPDFs env (Some fs) t sep s))"
  using map_nth_upt [of file_log fs]
  by (simp add: processPDFs_Some [OF assms] generate_and_download_console
      generate_and_download_results file_loop_console)

lemma output_files_cong:
  "results s1 = results s2 \<Longrightarrow> colorPDF s1 = colorPDF s2 \<Longrightarrow> bwPDF s1 = bwPDF s2 \<Longrightarrow>
   output_files env s1 = output_files env s2"
  by (simp add: output_files_def)

lemma run_downloads:
  assumes "fs \<noteq> []"
  shows "downloads (processPDFs env (Some fs) t sep s) =
    downloads s @ output_files env (processPDFs env (Some fs) t sep s)"
proof -
  define s2 where "s2 = file_loop t sep fs 0
        (s\<lparr>processing := True, progress := progress_starting,
           results := \<lparr>colorPages = 0, bwPages = 0\<rparr>, colorPDF := [], bwPDF := []\<rparr>)"
  have run: "processPDFs env (Some fs) t sep s = (generate_and_download env s2)\<lparr>processing := False\<rparr>"
    unfolding s2_def by (rule processPDFs_Some [OF assms])
  have "output_files env ((generate_and_download env s2)\<lparr>processing := False\<rparr>)
      = output_files env s2"
    by (rule output_files_cong)
      (simp_all add: generate_and_download_results generate_and_download_colorPDF
        generate_and_download_bwPDF)
  moreover have "downloads s2 = downloads s"
    by (simp add: s2_def file_loop_downloads)
  ultimately show ?thesis
    by (simp add: run generate_and_download_downloads)
qed

lemma run_counted:
  assumes "fs \<noteq> []"
  shows "counted (processPDFs env (Some fs) t sep s)"
proof -
  define s1 where "s1 = s\<lparr>processing := True, progress := progress_starting,
           results := \<lparr>colorPages = 0, bwPages = 0\<rparr>, colorPDF := [], bwPDF := []\<rparr>"
  have "counted s1" by (simp add: s1_def counted_def)
  then have "counted (file_loop t sep fs 0 s1)" by (rule file_loop_counted)
  then show ?thesis
    by (simp add: processPDFs_Some [OF assms] s1_def [symmetric] counted_def
        generate_and_download_results generate_and_download_colorPDF
        generate_and_download_bwPDF)
qed

lemma run_bytes_progress:
  assumes "fs \<noteq> []"
  shows "colorPdfBytes (processPDFs env (Some fs) t sep s) =
      (if colorPages (results (processPDFs env (Some fs) t sep s)) > 0 \<and> save_color_ok env
       then Some (colorPDF (processPDFs env (Some fs) t sep s)) else None)"
    and "bwPdfBytes (processPDFs env (Some fs) t sep s) =
      (if bwPages (results (processPDFs env (Some fs) t sep s)) > 0 \<and> save_bw_ok env \<and>
          (colorPages (results (processPDFs env (Some fs) t sep s)) > 0 \<longrightarrow> save_color_ok env)
       then Some (bwPDF (processPDFs env (Some fs) t sep s)) else None)"
    and "progress (processPDFs env (Some fs) t sep s) =
      (if (colorPages (results (processPDFs env (Some fs) t sep s)) > 0 \<and> \<not> save_color_ok env) \<or>
          (bwPages (results (processPDFs env (Some fs) t sep s)) > 0 \<and> \<not> save_bw_ok env)
       then error_generating_pdfs
       else if colorPages (results (processPDFs env (Some fs) t sep s)) = 0 \<and>
               bwPages (results (processPDFs env (Some fs) t sep s)) = 0 then error_no_pages
       else progress_complete)"
  by (auto simp: processPDFs_Some [OF assms] generate_and_download_results
      generate_and_download_colorPDF generate_and_download_bwPDF
      generate_and_download_colorPdfBytes generate_and_download_bwPdfBytes
      generate_and_download_progress)

lemma concat_map_if: "concat (map (\<lambda>q. if c q then [h q] else []) xs) = map h (filter c xs)"
  by (induction xs) simp_all

lemma filter_copy_error_page_log:
  "filter is_copy_error (page_log doc q) =
     (if \<not> copy_ok (file_pages doc ! q) then [Error_copying_page (q + 1) (file_name doc)] else [])"
  by (simp add: page_log_def is_copy_error_def)

lemma filter_copy_error_file_log: "filter is_copy_error (file_log doc) = copy_errors doc"
proof (cases "opened doc")
  case True
  then have "file_log doc = concat (map (page_log doc) [0..<length (file_pages doc)])"
    by (simp add: file_log_def opened_def)
  then have "filter is_copy_error (file_log doc) =
      concat (map (\<lambda>q. if \<not> copy_ok (file_pages doc ! q)
                        then [Error_copying_page (q + 1) (file_name doc)] else [])
                [0..<length (file_pages doc)])"
    by (simp add: filter_concat comp_def filter_copy_error_page_log)
  then show ?thesis
    using True by (simp only: concat_map_if copy_errors_def if_True)
next
  case False
  then show ?thesis
    by (auto simp: file_log_def opened_def copy_errors_def is_copy_error_def)
qed

lemma filter_copy_error_output_log: "filter is_copy_error (output_log env r) = []"
  by (simp add: output_log_def is_copy_error_def)

lemma run_copy_errors:
  assumes "fs \<noteq> []"
  shows "filter is_copy_error (drop (length (console s)) (console (processPDFs env (Some fs) t sep s)))
    = concat (map copy_errors fs)"
  by (simp add: run_console [OF assms] filter_concat comp_def filter_copy_error_file_log
      filter_copy_error_output_log)

subsection \<open>Evaluating a run\<close>

lemma detectColor_red_50: "detectColor red_image 50 = True"
proof -
  have "pixel_colored 50 (Pixel 255 0 0 255)"
    by (rule saturated_hue_colored) (simp_all add: pixel_min_def pixel_max_def)
  then have "detectColor red_image 50"
    unfolding red_image_def by (intro detectColor_all_colored) simp_all
  then show ?thesis by simp
qed

lemma detectColor_white_50: "detectColor white_image 50 = False"
  unfolding white_image_def by (rule detectColor_grey) simp_all

lemma example_pages:
  "page_is_color 50 (rendered_page red_image)" "\<not> page_is_color 50 (rendered_page white_image)"
  "copy_ok (rendered_page img)" "raster (rendered_page img) = Some img"
  by (simp_all add: page_is_color_def rendered_page_def detectColor_red_50 detectColor_white_50)

lemma process_page_copy_ok:
  assumes "copy_ok (file_pages doc ! p)"
  shows "process_page t doc fi p s =
    (if page_is_color t (file_pages doc ! p)
     then s\<lparr>progress := progress_processing_page (file_name doc) (p + 1) (length (file_pages doc)),
            console := console s @ page_log doc p,
            colorPDF := colorPDF s @ [SourcePage fi p],
            results := (results s)\<lparr>colorPages := colorPages (results s) + 1\<rparr>\<rparr>
     else s\<lparr>progress := progress_processing_page (file_name doc) (p + 1) (length (file_pages doc)),
            console := console s @ page_log doc p,
            bwPDF := bwPDF s @ [SourcePage fi p],
            results := (results s)\<lparr>bwPages := bwPages (results s) + 1\<rparr>\<rparr>)"
  using assms
  by (simp add: process_page_def detect_page_def copy_page_def Let_def page_is_color_def
      page_log_def split: option.split)

lemma process_page_copy_failed:
  assumes "\<not> copy_ok (file_pages doc ! p)"
  shows "process_page t doc fi p s =
    s\<lparr>progress := error_copying_page (p + 1) (file_name doc),
      console := console s @ page_log doc p\<rparr>"
  using assms
  by (simp add: process_page_def detect_page_def copy_page_def Let_def page_log_def
      split: option.split)

lemma scenario_run:
  assumes "opened A" "file_pages A = [a1, a2, a3]" "opened B" "file_pages B = [b1]"
    and "page_is_color 50 a1" "\<not> page_is_color 50 a2" "page_is_color 50 a3"
      "\<not> page_is_color 50 b1"
    and "copy_ok a1" "copy_ok a2" "copy_ok a3" "copy_ok b1"
  shows "results (processPDFs env (Some [A, B]) 50 True s) = \<lparr>colorPages = 2, bwPages = 2\<rparr>"
    and "colorPDF (processPDFs env (Some [A, B]) 50 True s)
          = [SourcePage 0 0, SourcePage 0 2, BlankPage]"
    and "bwPDF (processPDFs env (Some [A, B]) 50 True s)
          = [SourcePage 0 1, BlankPage, SourcePage 1 0]"
proof -
  define s2 where "s2 = file_loop 50 True [A, B] 0
      (s\<lparr>processing := True, progress := progress_starting,
         results := \<lparr>colorPages = 0, bwPages = 0\<rparr>, colorPDF := [], bwPDF := []\<rparr>)"
  have run: "processPDFs env (Some [A, B]) 50 True s
           = (generate_and_download env s2)\<lparr>processing := False\<rparr>"
    unfolding s2_def by (rule processPDFs_Some) simp
  have "results s2 = \<lparr>colorPages = 2, bwPages = 2\<rparr>
      \<and> colorPDF s2 = [SourcePage 0 0, SourcePage 0 2, BlankPage]
      \<and> bwPDF s2 = [SourcePage 0 1, BlankPage, SourcePage 1 0]"
    using assms unfolding s2_def opened_def
    by (simp add: file_loop.simps process_file_def page_loop.simps process_page_copy_ok Let_def)
  then show "results (processPDFs env (Some [A, B]) 50 True s) = \<lparr>colorPages = 2, bwPages = 2\<rparr>"
    and "colorPDF (processPDFs env (Some [A, B]) 50 True s)
          = [SourcePage 0 0, SourcePage 0 2, BlankPage]"
    and "bwPDF (processPDFs env (Some [A, B]) 50 True s)
          = [SourcePage 0 1, BlankPage, SourcePage 1 0]"
    by (simp_all add: run generate_and_download_results generate_and_download_colorPDF
        generate_and_download_bwPDF)
qed


lemma scenario_downloads:
  assumes "save_color_ok env" "save_bw_ok env" "download_color_ok env" "download_bw_ok env"
    and "results (processPDFs env (Some fs) t sep s) = \<lparr>colorPages = 2, bwPages = 2\<rparr>"
    and "fs \<noteq> []"
  shows "downloads (processPDFs env (Some fs) t sep s) =
    downloads s @ [(''color_pages.pdf'', colorPDF (processPDFs env (Some fs) t sep s)),
                   (''bw_pages.pdf'', bwPDF (processPDFs env (Some fs) t sep s))]"
  using assms(1-5) by (simp add: run_downloads [OF assms(6)] output_files_def)

lemma unreadable_then_B_run:
  "results (processPDFs ok_env (Some [unreadable_file, file_B]) 50 True idle)
        = \<lparr>colorPages = 0, bwPages = 1\<rparr>
    \<and> colorPDF (processPDFs ok_env (Some [unreadable_file, file_B]) 50 True idle) = [BlankPage]
    \<and> bwPDF (processPDFs ok_env (Some [unreadable_file, file_B]) 50 True idle)
        = [BlankPage, SourcePage 1 0]
    \<and> downloads (processPDFs ok_env (Some [unreadable_file, file_B]) 50 True idle)
        = [(''bw_pages.pdf'', [BlankPage, SourcePage 1 0])]
    \<and> console (processPDFs ok_env (Some [unreadable_file, file_B]) 50 True idle)
        = [Error_reading_file ''X.pdf'']"
proof -
  define s2 where "s2 = file_loop 50 True [unreadable_file, file_B] 0
      (idle\<lparr>processing := True, progress := progress_starting,
         results := \<lparr>colorPages = 0, bwPages = 0\<rparr>, colorPDF := [], bwPDF := []\<rparr>)"
  have run: "processPDFs ok_env (Some [unreadable_file, file_B]) 50 True idle
           = (generate_and_download ok_env s2)\<lparr>processing := False\<rparr>"
    unfolding s2_def by (rule processPDFs_Some) simp
  have s2: "results s2 = \<lparr>colorPages = 0, bwPages = 1\<rparr> \<and> colorPDF s2 = [BlankPage]
      \<and> bwPDF s2 = [BlankPage, SourcePage 1 0] \<and> console s2 = [Error_reading_file ''X.pdf'']
      \<and> downloads s2 = []"
    unfolding s2_def
    by (simp add: file_loop.simps process_file_def page_loop.simps process_page_copy_ok Let_def
        example_pages unreadable_file_def file_B_def idle_def page_log_def)
  show ?thesis
    unfolding run using s2
    by (simp add: generate_and_download_colorPDF generate_and_download_bwPDF
        generate_and_download_results generate_and_download_downloads generate_and_download_console output_files_def
        output_log_def ok_env_def)
qed

section \<open>The claims\<close>

text \<open>
  Claim C1. With separators enabled, a blank page is to be inserted before a file's pages
  only when an earlier file of the run was opened. The code tests \<open>fileIndex > 0\<close> instead:
  when the first file cannot be read, the second file is the first one opened, and both
  documents still receive a blank page before its pages. The B&W output of this run starts
  with a blank page.
\<close>

theorem separator_before_first_opened_file:
  "colorPDF (processPDFs ok_env (Some [unreadable_file, file_B]) 50 True idle) = [BlankPage]
    \<and> bwPDF (processPDFs ok_env (Some [unreadable_file, file_B]) 50 True idle)
        = [BlankPage, SourcePage 1 0]
    \<and> downloads (processPDFs ok_env (Some [unreadable_file, file_B]) 50 True idle)
        = [(''bw_pages.pdf'', [BlankPage, SourcePage 1 0])]
    \<and> console (processPDFs ok_env (Some [unreadable_file, file_B]) 50 True idle)
        = [Error_reading_file ''X.pdf'']"
  using unreadable_then_B_run by simp

text \<open>
  Claim C2 (amended). Two input files, file A with three pages classified colour, black and
  white, colour, file B with one page classified black and white, threshold 50, separators
  enabled, every page copied, saving and downloading succeed. The counts are 2 and 2, the
  B&W output is A.p2, blank, B.p1, and the colour output is A.p1, A.p3 followed by a blank
  page: the separator before file B is added to both documents.
\<close>

theorem two_file_scenario:
  assumes "opened A" "file_pages A = [a1, a2, a3]" "opened B" "file_pages B = [b1]"
    and "page_is_color 50 a1" "\<not> page_is_color 50 a2" "page_is_color 50 a3"
      "\<not> page_is_color 50 b1"
    and "copy_ok a1" "copy_ok a2" "copy_ok a3" "copy_ok b1"
    and "save_color_ok env" "save_bw_ok env" "download_color_ok env" "download_bw_ok env"
  shows "results (processPDFs env (Some [A, B]) 50 True s) = \<lparr>colorPages = 2, bwPages = 2\<rparr>
    \<and> colorPDF (processPDFs env (Some [A, B]) 50 True s)
        = [SourcePage 0 0, SourcePage 0 2, BlankPage]
    \<and> bwPDF (processPDFs env (Some [A, B]) 50 True s)
        = [SourcePage 0 1, BlankPage, SourcePage 1 0]
    \<and> downloads (processPDFs env (Some [A, B]) 50 True s)
        = downloads s @ [(''color_pages.pdf'', [SourcePage 0 0, SourcePage 0 2, BlankPage]),
                         (''bw_pages.pdf'', [SourcePage 0 1, BlankPage, SourcePage 1 0])]"
proof -
  note run = scenario_run [OF assms(1-12), of env s]
  have "downloads (processPDFs env (Some [A, B]) 50 True s) =
    downloads s @ [(''color_pages.pdf'', colorPDF (processPDFs env (Some [A, B]) 50 True s)),
                   (''bw_pages.pdf'', bwPDF (processPDFs env (Some [A, B]) 50 True s))]"
    using assms(13-16) run(1) by (rule scenario_downloads) simp
  with run show ?thesis by simp
qed

theorem two_file_scenario_witness:
  "results (processPDFs ok_env (Some [file_A, file_B]) 50 True idle)
      = \<lparr>colorPages = 2, bwPages = 2\<rparr>
    \<and> colorPDF (processPDFs ok_env (Some [file_A, file_B]) 50 True idle)
        = [SourcePage 0 0, SourcePage 0 2, BlankPage]
    \<and> bwPDF (processPDFs ok_env (Some [file_A, file_B]) 50 True idle)
        = [SourcePage 0 1, BlankPage, SourcePage 1 0]
    \<and> downloads (processPDFs ok_env (Some [file_A, file_B]) 50 True idle)
        = [(''color_pages.pdf'', [SourcePage 0 0, SourcePage 0 2, BlankPage]),
           (''bw_pages.pdf'', [SourcePage 0 1, BlankPage, SourcePage 1 0])]"
  using two_file_scenario [of file_A "rendered_page red_image" "rendered_page white_image"
      "rendered_page red_image" file_B "rendered_page white_image" ok_env idle]
  by (simp add: example_pages opened_def file_A_def file_B_def ok_env_def idle_def)

theorem two_file_scenario_counterexample:
  "page_is_color 50 (file_pages file_A ! 0) \<and> \<not> page_is_color 50 (file_pages file_A ! 1)
    \<and> page_is_color 50 (file_pages file_A ! 2) \<and> \<not> page_is_color 50 (file_pages file_B ! 0)
    \<and> colorPDF (processPDFs ok_env (Some [file_A, file_B]) 50 True idle)
        \<noteq> [SourcePage 0 0, SourcePage 0 2]"
proof -
  have "colorPDF (processPDFs ok_env (Some [file_A, file_B]) 50 True idle)
        = [SourcePage 0 0, SourcePage 0 2, BlankPage]"
    by (rule scenario_run(2) [of file_A "rendered_page red_image" "rendered_page white_image"
          "rendered_page red_image" file_B "rendered_page white_image"])
      (simp_all add: example_pages opened_def file_A_def file_B_def)
  then show ?thesis
    by (simp add: example_pages file_A_def file_B_def)
qed

text \<open>
  Claim C3. Classification is monotone in the threshold: for a fixed buffer and thresholds
  \<open>t1 \<le> t2\<close>, if \<open>detectColor\<close> returns \<open>false\<close> (black and white) at \<open>t1\<close>, it returns
  \<open>false\<close> at \<open>t2\<close>. Raising the threshold never turns a black-and-white result into a
  colour result.
\<close>

theorem detectColor_threshold_monotone:
  assumes "t1 \<le> t2" and "detectColor buffer t1 = False"
  shows "detectColor buffer t2 = False"
proof -
  define z where "z = \<lparr>colorPixels = 0, sampledPixels = 0, brightPixels = 0, darkPixels = 0\<rparr>"
  define c1 where "c1 = detectColor_loop buffer t1 0 z"
  define c2 where "c2 = detectColor_loop buffer t2 0 z"
  have "same_but_color z z" by (simp add: same_but_color_def)
  with assms(1) have "same_but_color c1 c2"
    unfolding c1_def c2_def by (rule detectColor_loop_antimono)
  then have s: "sampledPixels c1 = sampledPixels c2" and b: "brightPixels c1 = brightPixels c2"
    and d: "darkPixels c1 = darkPixels c2" and c: "colorPixels c2 \<le> colorPixels c1"
    by (simp_all add: same_but_color_def)
  have "(of_nat (colorPixels c2) :: rat) / of_nat (sampledPixels c2)
        \<le> of_nat (colorPixels c1) / of_nat (sampledPixels c2)"
    using c by (simp add: divide_right_mono)
  then have "fl (of_nat (colorPixels c2) / of_nat (sampledPixels c2))
        \<le> fl (of_nat (colorPixels c1) / of_nat (sampledPixels c2))"
    by (rule fl_mono)
  then have "fl (of_nat (colorPixels c2) / of_nat (sampledPixels c2)) * 100
        \<le> fl (of_nat (colorPixels c1) / of_nat (sampledPixels c2)) * 100"
    by simp
  then have p: "fl (fl (of_nat (colorPixels c2) / of_nat (sampledPixels c2)) * 100)
        \<le> fl (fl (of_nat (colorPixels c1) / of_nat (sampledPixels c2)) * 100)"
    by (rule fl_mono)
  show ?thesis
    using assms(2) p
    unfolding detectColor_def z_def [symmetric] c1_def [symmetric] c2_def [symmetric] Let_def
    by (auto simp: s b d split: if_splits)
qed

theorem detectColor_threshold_monotone_witness:
  "(10::rat) \<le> 50 \<and> detectColor [Pixel 255 255 255 255] 10 = False
    \<and> detectColor [Pixel 255 255 255 255] 50 = False"
proof -
  have a: "detectColor [Pixel 255 255 255 255] 10 = False"
    by (rule detectColor_grey) simp_all
  have b: "(10::rat) \<le> 50" by simp
  from detectColor_threshold_monotone [OF b a] a b show ?thesis by simp
qed

text \<open>
  Claim C4. If every sampled pixel (every tenth pixel, from the first) has alpha below 128,
  the sample population is empty and \<open>detectColor\<close> returns \<open>false\<close> (black and white), at
  every threshold. As a total function, \<open>detectColor\<close> returns a value on every buffer.
\<close>

theorem detectColor_empty_sample:
  assumes "\<forall>j < length buffer. j mod 10 = 0 \<longrightarrow> uint (chan_a (buffer ! j)) < 128"
  shows "detectColor buffer threshold = False"
proof -
  have "detectColor_loop buffer threshold 0
          \<lparr>colorPixels = 0, sampledPixels = 0, brightPixels = 0, darkPixels = 0\<rparr>
        = \<lparr>colorPixels = 0, sampledPixels = 0, brightPixels = 0, darkPixels = 0\<rparr>"
    using assms by (intro detectColor_loop_transparent) simp_all
  then show ?thesis by (simp add: detectColor_def)
qed

theorem detectColor_empty_sample_witness:
  "detectColor (replicate 25 (Pixel 255 0 0 127)) 50 = False"
  using detectColor_empty_sample [of "replicate 25 (Pixel 255 0 0 127)" 50]
  by simp

text \<open>
  Claim C5. A non-empty buffer that is uniformly one fully saturated, opaque hue (the
  smallest channel is 0, the largest is positive, alpha is 255; pure red is one such pixel)
  is classified as colour at every threshold from 10 to 100.
\<close>

theorem detectColor_saturated_hue:
  assumes "0 < n"
    and "min (uint (chan_r px)) (min (uint (chan_g px)) (uint (chan_b px))) = 0"
    and "0 < max (uint (chan_r px)) (max (uint (chan_g px)) (uint (chan_b px)))"
    and "chan_a px = 255"
    and "10 \<le> threshold" "threshold \<le> 100"
  shows "detectColor (replicate n px) threshold = True"
proof -
  have "pixel_colored threshold px"
    using assms(2,3,5,6) by (intro saturated_hue_colored) (simp_all add: pixel_min_def pixel_max_def)
  moreover have "128 \<le> uint (chan_a px)" using assms(4) by simp
  ultimately have "detectColor (replicate n px) threshold"
    using assms(1) by (intro detectColor_all_colored) simp_all
  then show ?thesis by simp
qed

theorem detectColor_saturated_hue_witness:
  "detectColor (replicate 7 (Pixel 255 0 0 255)) 100 = True"
  using detectColor_saturated_hue [of 7 "Pixel 255 0 0 255" 100] by simp

text \<open>
  Claim C6 (amended). When rendering a page fails, the run goes on. The handler of the
  first \<open>try\<close> block classifies the page black and white and writes one line on the
  console; it sets no error message in \<open>progress\<close>. The loop continues with the next page,
  and the page is never in the colour document. When the copy of the page succeeds, the
  page is appended to the B&W document and the B&W counter is incremented, the colour
  document and counter are unchanged, \<open>progress\<close> keeps the ordinary page message, and at
  the end of the run the page is in the B&W document once.
\<close>

theorem render_failure_defaults_to_bw:
  assumes "fs \<noteq> []" and "f < length fs" and "opened (fs ! f)"
    and "p < length (file_pages (fs ! f))"
    and "raster (file_pages (fs ! f) ! p) = None"
  shows "detect_page t (fs ! f) p s =
      (False, s\<lparr>console := console s @ [Error_processing_page (p + 1) (file_name (fs ! f))]\<rparr>)
    \<and> page_loop t (fs ! f) f p s = page_loop t (fs ! f) f (p + 1) (process_page t (fs ! f) f p s)
    \<and> count_list (colorPDF (processPDFs env (Some fs) t sep s0)) (SourcePage f p) = 0
    \<and> (copy_ok (file_pages (fs ! f) ! p) \<longrightarrow>
        process_page t (fs ! f) f p s =
          s\<lparr>progress := progress_processing_page (file_name (fs ! f)) (p + 1)
                           (length (file_pages (fs ! f))),
            console := console s @ [Error_processing_page (p + 1) (file_name (fs ! f))],
            bwPDF := bwPDF s @ [SourcePage f p],
            results := (results s)\<lparr>bwPages := bwPages (results s) + 1\<rparr>\<rparr>
        \<and> count_list (bwPDF (processPDFs env (Some fs) t sep s0)) (SourcePage f p) = 1)"
proof -
  have c: "\<not> page_is_color t (file_pages (fs ! f) ! p)"
    using assms(5) by (simp add: page_is_color_def)
  have "detect_page t (fs ! f) p s =
      (False, s\<lparr>console := console s @ [Error_processing_page (p + 1) (file_name (fs ! f))]\<rparr>)"
    using assms(5) by (simp add: detect_page_def)
  moreover
  have "page_loop t (fs ! f) f p s = page_loop t (fs ! f) f (p + 1) (process_page t (fs ! f) f p s)"
    using assms(4) by (subst page_loop.simps) simp
  moreover
  have "count_list (colorPDF (processPDFs env (Some fs) t sep s0)) (SourcePage f p) = 0"
    using c by (simp add: run_colorPDF_count [OF assms(1)])
  moreover
  have "process_page t (fs ! f) f p s =
      s\<lparr>progress := progress_processing_page (file_name (fs ! f)) (p + 1)
                       (length (file_pages (fs ! f))),
        console := console s @ [Error_processing_page (p + 1) (file_name (fs ! f))],
        bwPDF := bwPDF s @ [SourcePage f p],
        results := (results s)\<lparr>bwPages := bwPages (results s) + 1\<rparr>\<rparr>"
    if "copy_ok (file_pages (fs ! f) ! p)"
    using c assms(5) that by (simp add: process_page_copy_ok page_log_def)
  moreover
  have "count_list (bwPDF (processPDFs env (Some fs) t sep s0)) (SourcePage f p) = 1"
    if "copy_ok (file_pages (fs ! f) ! p)"
    using c assms(2-4) that by (simp add: run_bwPDF_count [OF assms(1)])
  ultimately show ?thesis by simp
qed

theorem render_failure_defaults_to_bw_witness:
  "detect_page 50 damaged_file 0 idle = (False, idle\<lparr>console := [Error_processing_page 1 ''D.pdf'']\<rparr>)
    \<and> process_page 50 damaged_file 0 0 idle =
      idle\<lparr>progress := progress_processing_page ''D.pdf'' 1 3,
           console := [Error_processing_page 1 ''D.pdf''],
           bwPDF := [SourcePage 0 0],
           results := \<lparr>colorPages = 0, bwPages = 1\<rparr>\<rparr>
    \<and> count_list (bwPDF (processPDFs ok_env (Some [damaged_file]) 50 True idle)) (SourcePage 0 0) = 1
    \<and> count_list (colorPDF (processPDFs ok_env (Some [damaged_file]) 50 True idle)) (SourcePage 0 0) = 0"
  using render_failure_defaults_to_bw [of "[damaged_file]" 0 0 50 idle ok_env True idle]
  by (simp add: opened_def damaged_file_def idle_def)

theorem render_failure_defaults_to_bw_counterexample:
  "raster (file_pages damaged_file ! 2) = None
    \<and> process_page 50 damaged_file 0 2 idle =
      idle\<lparr>progress := error_copying_page 3 ''D.pdf'',
           console := [Error_processing_page 3 ''D.pdf'', Error_copying_page 3 ''D.pdf'']\<rparr>
    \<and> bwPDF (process_page 50 damaged_file 0 2 idle) = []
    \<and> bwPages (results (process_page 50 damaged_file 0 2 idle)) = 0
    \<and> count_list (bwPDF (processPDFs ok_env (Some [damaged_file]) 50 True idle)) (SourcePage 0 2) = 0
    \<and> bwPages (results (processPDFs ok_env (Some [damaged_file]) 50 True idle)) = 1"
proof -
  have step: "process_page 50 damaged_file 0 2 idle =
      idle\<lparr>progress := error_copying_page 3 ''D.pdf'',
           console := [Error_processing_page 3 ''D.pdf'', Error_copying_page 3 ''D.pdf'']\<rparr>"
    by (subst process_page_copy_failed)
      (simp_all add: damaged_file_def page_log_def idle_def numeral_2_eq_2)
  have "count_list (bwPDF (processPDFs ok_env (Some [damaged_file]) 50 True idle)) (SourcePage 0 2) = 0"
    by (simp add: run_bwPDF_count damaged_file_def numeral_2_eq_2)
  moreover
  have "bwPages (results (processPDFs ok_env (Some [damaged_file]) 50 True idle)) = 1"
    by (simp add: run_results copied_def opened_def page_is_color_def damaged_file_def)
  moreover
  have "raster (file_pages damaged_file ! 2) = None"
    by (simp add: damaged_file_def numeral_2_eq_2)
  ultimately show ?thesis
    unfolding step by (simp add: idle_def)
qed

text \<open>
  Claim C7. At-most-once routing. Processing a page of an opened file does one of two
  things. If the copy succeeds, the page is appended to one document, the colour document
  if it was classified colour and the B&W document otherwise, and the counter of that
  document is incremented; nothing else but \<open>progress\<close> and the console changes. If the
  copy fails, both documents and both counters are unchanged, \<open>progress\<close> is the copy-error
  message and the console has one more copy-error line, with the page number and the file
  name. At the end of every run, a copied page is in exactly one document, exactly once,
  a page whose copy failed is in neither, the counters are the numbers of copied pages of
  each class, and the copy-error lines of the run are, in order, one line for each page of
  an opened file whose copy failed.
\<close>

theorem at_most_once_routing:
  assumes "fs \<noteq> []" and "f < length fs" and "opened (fs ! f)"
    and "p < length (file_pages (fs ! f))"
  shows "(copy_ok (file_pages (fs ! f) ! p) \<longrightarrow>
        process_page t (fs ! f) f p s =
          (if page_is_color t (file_pages (fs ! f) ! p)
           then s\<lparr>progress := progress_processing_page (file_name (fs ! f)) (p + 1)
                                (length (file_pages (fs ! f))),
                  console := console s @ page_log (fs ! f) p,
                  colorPDF := colorPDF s @ [SourcePage f p],
                  results := (results s)\<lparr>colorPages := colorPages (results s) + 1\<rparr>\<rparr>
           else s\<lparr>progress := progress_processing_page (file_name (fs ! f)) (p + 1)
                                (length (file_pages (fs ! f))),
                  console := console s @ page_log (fs ! f) p,
                  bwPDF := bwPDF s @ [SourcePage f p],
                  results := (results s)\<lparr>bwPages := bwPages (results s) + 1\<rparr>\<rparr>)
        \<and> filter is_copy_error (page_log (fs ! f) p) = []
        \<and> count_list (colorPDF (processPDFs env (Some fs) t sep s0)) (SourcePage f p)
          = (if page_is_color t (file_pages (fs ! f) ! p) then 1 else 0)
        \<and> count_list (bwPDF (processPDFs env (Some fs) t sep s0)) (SourcePage f p)
          = (if page_is_color t (file_pages (fs ! f) ! p) then 0 else 1))
    \<and> (\<not> copy_ok (file_pages (fs ! f) ! p) \<longrightarrow>
        process_page t (fs ! f) f p s =
          s\<lparr>progress := error_copying_page (p + 1) (file_name (fs ! f)),
            console := console s @ page_log (fs ! f) p\<rparr>
        \<and> filter is_copy_error (page_log (fs ! f) p)
          = [Error_copying_page (p + 1) (file_name (fs ! f))]
        \<and> count_list (colorPDF (processPDFs env (Some fs) t sep s0)) (SourcePage f p) = 0
        \<and> count_list (bwPDF (processPDFs env (Some fs) t sep s0)) (SourcePage f p) = 0
        \<and> Error_copying_page (p + 1) (file_name (fs ! f))
            \<in> set (drop (length (console s0)) (console (processPDFs env (Some fs) t sep s0))))
    \<and> colorPages (results (processPDFs env (Some fs) t sep s0))
        = sum_list (map (copied t True) fs)
    \<and> bwPages (results (processPDFs env (Some fs) t sep s0))
        = sum_list (map (copied t False) fs)
    \<and> filter is_copy_error
          (drop (length (console s0)) (console (processPDFs env (Some fs) t sep s0)))
        = concat (map copy_errors fs)"
proof -
  have "Error_copying_page (p + 1) (file_name (fs ! f))
      \<in> set (drop (length (console s0)) (console (processPDFs env (Some fs) t sep s0)))"
    if "\<not> copy_ok (file_pages (fs ! f) ! p)"
  proof -
    have "Error_copying_page (p + 1) (file_name (fs ! f)) \<in> set (copy_errors (fs ! f))"
      using that assms(3,4) by (simp add: copy_errors_def)
    moreover have "fs ! f \<in> set fs" using assms(2) by simp
    ultimately have "Error_copying_page (p + 1) (file_name (fs ! f))
        \<in> set (concat (map copy_errors fs))" by auto
    then have "Error_copying_page (p + 1) (file_name (fs ! f))
        \<in> set (filter is_copy_error
            (drop (length (console s0)) (console (processPDFs env (Some fs) t sep s0))))"
      by (simp only: run_copy_errors [OF assms(1)])
    then show ?thesis by simp
  qed
  moreover
  have "process_page t (fs ! f) f p s =
          (if page_is_color t (file_pages (fs ! f) ! p)
           then s\<lparr>progress := progress_processing_page (file_name (fs ! f)) (p + 1)
                                (length (file_pages (fs ! f))),
                  console := console s @ page_log (fs ! f) p,
                  colorPDF := colorPDF s @ [SourcePage f p],
                  results := (results s)\<lparr>colorPages := colorPages (results s) + 1\<rparr>\<rparr>
           else s\<lparr>progress := progress_processing_page (file_name (fs ! f)) (p + 1)
                                (length (file_pages (fs ! f))),
                  console := console s @ page_log (fs ! f) p,
                  bwPDF := bwPDF s @ [SourcePage f p],
                  results := (results s)\<lparr>bwPages := bwPages (results s) + 1\<rparr>\<rparr>)"
    if "copy_ok (file_pages (fs ! f) ! p)"
    using that by (rule process_page_copy_ok)
  moreover
  have "process_page t (fs ! f) f p s =
          s\<lparr>progress := error_copying_page (p + 1) (file_name (fs ! f)),
            console := console s @ page_log (fs ! f) p\<rparr>"
    if "\<not> copy_ok (file_pages (fs ! f) ! p)"
    using that by (rule process_page_copy_failed)
  ultimately show ?thesis
    using assms(2-4)
    by (simp add: run_colorPDF_count [OF assms(1)] run_bwPDF_count [OF assms(1)]
        run_results [OF assms(1)] run_copy_errors [OF assms(1)] filter_copy_error_page_log)
qed

theorem at_most_once_routing_witness:
  "count_list (colorPDF (processPDFs ok_env (Some [damaged_file]) 50 False idle)) (SourcePage 0 0) = 0
    \<and> count_list (bwPDF (processPDFs ok_env (Some [damaged_file]) 50 False idle)) (SourcePage 0 0) = 1
    \<and> count_list (colorPDF (processPDFs ok_env (Some [damaged_file]) 50 False idle)) (SourcePage 0 1) = 0
    \<and> count_list (bwPDF (processPDFs ok_env (Some [damaged_file]) 50 False idle)) (SourcePage 0 1) = 0
    \<and> Error_copying_page 2 ''D.pdf''
        \<in> set (console (processPDFs ok_env (Some [damaged_file]) 50 False idle))
    \<and> results (processPDFs ok_env (Some [damaged_file]) 50 False idle)
        = \<lparr>colorPages = 0, bwPages = 1\<rparr>
    \<and> filter is_copy_error (console (processPDFs ok_env (Some [damaged_file]) 50 False idle))
        = [Error_copying_page 2 ''D.pdf'', Error_copying_page 3 ''D.pdf'']"
  using at_most_once_routing [of "[damaged_file]" 0 0 50 idle ok_env False idle]
    at_most_once_routing [of "[damaged_file]" 0 1 50 idle ok_env False idle]
  by (simp add: opened_def damaged_file_def idle_def copy_errors_def copied_def
      page_is_color_def upt_conv_Cons numeral_2_eq_2 numeral_3_eq_3)

text \<open>
  Claim C8. A class whose counter is zero at the end of the file loop produces no output:
  \<open>save\<close> is not called on its document (the bytes stay \<open>null\<close>) and no file of its name is
  handed to the browser, even when the document holds separator pages. The run ends with
  the message \<open>error_no_pages\<close>, and with no download at all, exactly when both counters are
  zero; otherwise it ends with \<open>progress_complete\<close> or, when a \<open>save\<close> failed, with
  \<open>error_generating_pdfs\<close>.
\<close>

theorem empty_class_no_output:
  assumes "fs \<noteq> []"
  shows "(colorPages (results (processPDFs env (Some fs) t sep s)) = 0 \<longrightarrow>
        colorPdfBytes (processPDFs env (Some fs) t sep s) = None
        \<and> ''color_pages.pdf'' \<notin> fst ` set (drop (length (downloads s))
              (downloads (processPDFs env (Some fs) t sep s))))
    \<and> (bwPages (results (processPDFs env (Some fs) t sep s)) = 0 \<longrightarrow>
        bwPdfBytes (processPDFs env (Some fs) t sep s) = None
        \<and> ''bw_pages.pdf'' \<notin> fst ` set (drop (length (downloads s))
              (downloads (processPDFs env (Some fs) t sep s))))
    \<and> (colorPages (results (processPDFs env (Some fs) t sep s)) = 0
        \<and> bwPages (results (processPDFs env (Some fs) t sep s)) = 0 \<longrightarrow>
        downloads (processPDFs env (Some fs) t sep s) = downloads s)
    \<and> (progress (processPDFs env (Some fs) t sep s) = error_no_pages)
        = (colorPages (results (processPDFs env (Some fs) t sep s)) = 0
           \<and> bwPages (results (processPDFs env (Some fs) t sep s)) = 0)
    \<and> progress (processPDFs env (Some fs) t sep s)
        \<in> {error_no_pages, progress_complete, error_generating_pdfs}"
  by (auto simp: run_downloads [OF assms] run_bytes_progress [OF assms] output_files_def)

theorem empty_class_no_output_witness:
  "colorPages (results (processPDFs ok_env (Some [unreadable_file]) 50 True idle)) = 0
    \<and> bwPages (results (processPDFs ok_env (Some [unreadable_file]) 50 True idle)) = 0
    \<and> colorPdfBytes (processPDFs ok_env (Some [unreadable_file]) 50 True idle) = None
    \<and> bwPdfBytes (processPDFs ok_env (Some [unreadable_file]) 50 True idle) = None
    \<and> downloads (processPDFs ok_env (Some [unreadable_file]) 50 True idle) = []
    \<and> progress (processPDFs ok_env (Some [unreadable_file]) 50 True idle) = error_no_pages
    \<and> colorPDF (processPDFs ok_env (Some [unreadable_file, file_B]) 50 True idle) = [BlankPage]
    \<and> colorPdfBytes (processPDFs ok_env (Some [unreadable_file, file_B]) 50 True idle) = None
    \<and> downloads (processPDFs ok_env (Some [unreadable_file, file_B]) 50 True idle)
        = [(''bw_pages.pdf'', [BlankPage, SourcePage 1 0])]"
proof -
  have "results (processPDFs ok_env (Some [unreadable_file]) 50 True idle)
      = \<lparr>colorPages = 0, bwPages = 0\<rparr>"
    by (simp add: run_results copied_def opened_def unreadable_file_def)
  then have "colorPages (results (processPDFs ok_env (Some [unreadable_file]) 50 True idle)) = 0
    \<and> bwPages (results (processPDFs ok_env (Some [unreadable_file]) 50 True idle)) = 0
    \<and> colorPdfBytes (processPDFs ok_env (Some [unreadable_file]) 50 True idle) = None
    \<and> bwPdfBytes (processPDFs ok_env (Some [unreadable_file]) 50 True idle) = None
    \<and> downloads (processPDFs ok_env (Some [unreadable_file]) 50 True idle) = []
    \<and> progress (processPDFs ok_env (Some [unreadable_file]) 50 True idle) = error_no_pages"
    using empty_class_no_output [of "[unreadable_file]" ok_env 50 True idle]
    by (simp add: idle_def)
  moreover
  have "colorPdfBytes (processPDFs ok_env (Some [unreadable_file, file_B]) 50 True idle) = None"
    using empty_class_no_output [of "[unreadable_file, file_B]" ok_env 50 True idle]
      unreadable_then_B_run
    by simp
  ultimately show ?thesis using unreadable_then_B_run by simp
qed

text \<open>
  Claim C9 (amended). The report of a run, \<open>results\<close>, holds the two page counts and nothing
  else. The recoverable failures are written to the console instead, in order: one line for
  each file that cannot be read or opened, with its name, and for each page of an opened
  file one line when it cannot be rendered and one line when it cannot be copied, with the
  page number and the file name; the kind of failure is the kind of line. Lines about
  saving and downloading follow. A run over a single unreadable file writes exactly one
  line, of kind \<open>Error_reading_file\<close>, counts no page and ends with \<open>error_no_pages\<close>.
\<close>

theorem report_and_console:
  assumes "fs \<noteq> []"
  shows "results (processPDFs env (Some fs) t sep s)
        = \<lparr>colorPages = sum_list (map (copied t True) fs),
           bwPages = sum_list (map (copied t False) fs)\<rparr>
    \<and> console (processPDFs env (Some fs) t sep s)
        = console s @ concat (map file_log fs)
            @ output_log env (results (processPDFs env (Some fs) t sep s))
    \<and> (length fs = 1 \<and> \<not> read_ok (fs ! 0) \<longrightarrow>
        results (processPDFs env (Some fs) t sep s) = \<lparr>colorPages = 0, bwPages = 0\<rparr>
        \<and> console (processPDFs env (Some fs) t sep s)
            = console s @ [Error_reading_file (file_name (fs ! 0))]
        \<and> progress (processPDFs env (Some fs) t sep s) = error_no_pages)"
proof -
  have "results (processPDFs env (Some fs) t sep s) = \<lparr>colorPages = 0, bwPages = 0\<rparr>
        \<and> console (processPDFs env (Some fs) t sep s)
            = console s @ [Error_reading_file (file_name (fs ! 0))]
        \<and> progress (processPDFs env (Some fs) t sep s) = error_no_pages"
    if "length fs = 1" "\<not> read_ok (fs ! 0)"
  proof -
    from that(1) obtain doc where fs: "fs = [doc]"
      by (cases fs) simp_all
    have r: "results (processPDFs env (Some fs) t sep s) = \<lparr>colorPages = 0, bwPages = 0\<rparr>"
      using that(2) by (simp add: run_results [OF assms]) (simp add: fs copied_def opened_def)
    then show ?thesis
      using that(2)
      by (simp add: run_console [OF assms] run_bytes_progress [OF assms])
        (simp add: fs file_log_def output_log_def)
  qed
  then show ?thesis
    by (simp add: run_results [OF assms] run_console [OF assms])
qed

theorem report_and_console_witness:
  "results (processPDFs ok_env (Some [unreadable_file]) 50 False idle)
      = \<lparr>colorPages = 0, bwPages = 0\<rparr>
    \<and> console (processPDFs ok_env (Some [unreadable_file]) 50 False idle)
      = [Error_reading_file ''X.pdf'']
    \<and> progress (processPDFs ok_env (Some [unreadable_file]) 50 False idle) = error_no_pages"
  using report_and_console [of "[unreadable_file]" ok_env 50 False idle]
  by (simp add: unreadable_file_def idle_def copied_def opened_def file_log_def output_log_def)

theorem report_has_no_diagnostics_counterexample:
  "results (processPDFs ok_env (Some [unreadable_file]) 50 False idle)
      = results (processPDFs ok_env (Some [empty_file]) 50 False idle)
    \<and> console (processPDFs ok_env (Some [unreadable_file]) 50 False idle)
      = [Error_reading_file ''X.pdf'']
    \<and> console (processPDFs ok_env (Some [empty_file]) 50 False idle) = []"
proof -
  have "results (processPDFs ok_env (Some [unreadable_file]) 50 False idle)
      = \<lparr>colorPages = 0, bwPages = 0\<rparr>"
    by (simp add: run_results copied_def opened_def unreadable_file_def)
  moreover
  have r: "results (processPDFs ok_env (Some [empty_file]) 50 False idle)
      = \<lparr>colorPages = 0, bwPages = 0\<rparr>"
    by (simp add: run_results copied_def opened_def empty_file_def)
  moreover
  have "console (processPDFs ok_env (Some [unreadable_file]) 50 False idle)
      = [Error_reading_file ''X.pdf'']"
    by (simp add: run_console run_results copied_def opened_def file_log_def output_log_def
        unreadable_file_def idle_def)
  moreover
  have "console (processPDFs ok_env (Some [empty_file]) 50 False idle) = []"
    by (simp add: run_console r file_log_def output_log_def) (simp add: empty_file_def idle_def)
  ultimately show ?thesis by simp
qed

text \<open>
  Claim C10. Separator pages are not counted. At the end of every run each counter is the
  number of source pages in its document, the blank pages left out, and the counts of a
  run with separators are the counts of the same run without them.
\<close>

theorem counters_exclude_separators:
  assumes "fs \<noteq> []"
  shows "colorPages (results (processPDFs env (Some fs) t sep s))
        = length (filter (\<lambda>x. x \<noteq> BlankPage) (colorPDF (processPDFs env (Some fs) t sep s)))
    \<and> bwPages (results (processPDFs env (Some fs) t sep s))
        = length (filter (\<lambda>x. x \<noteq> BlankPage) (bwPDF (processPDFs env (Some fs) t sep s)))
    \<and> results (processPDFs env (Some fs) t True s)
        = results (processPDFs env (Some fs) t False s)"
  using run_counted [OF assms, of env t sep s]
  by (simp add: counted_def run_results [OF assms])

theorem counters_exclude_separators_witness:
  "colorPages (results (processPDFs ok_env (Some [file_A, file_B]) 50 True idle))
      = length (filter (\<lambda>x. x \<noteq> BlankPage)
          (colorPDF (processPDFs ok_env (Some [file_A, file_B]) 50 True idle)))
    \<and> bwPages (results (processPDFs ok_env (Some [file_A, file_B]) 50 True idle))
      = length (filter (\<lambda>x. x \<noteq> BlankPage)
          (bwPDF (processPDFs ok_env (Some [file_A, file_B]) 50 True idle)))
    \<and> results (processPDFs ok_env (Some [file_A, file_B]) 50 True idle)
      = results (processPDFs ok_env (Some [file_A, file_B]) 50 False idle)"
  by (rule counters_exclude_separators [of "[file_A, file_B]" ok_env 50 True idle]) simp

end
